theory Spec2Isabelle
  imports Complex_Main "HOL-Library.Word"
begin

section \<open>Inpainting of image blobs: the data model of InpaintView.h\<close>

text \<open>
  The development embeds \<^verbatim>\<open>src/asp/Core/InpaintView.h\<close>: the task that patches one blob
  (\<^verbatim>\<open>InpaintTask::operator()\<close>) and the view that lays the patches over the source image
  (\<^verbatim>\<open>InpaintView\<close>).

  Conventions of the embedding.
  \<^item> Coordinates are pairs of integers (\<^verbatim>\<open>vw::Vector2i\<close>). The 32-bit integers of the
    source are unbounded integers here: coordinates are bounded by the image size.
  \<^item> A pixel is a function from channel index to channel value, a real number. The
    pixel type of the source and the pixel type of the store are one type: a validity
    mask on the pixels of the source is not modelled.
  \<^item> The arithmetic of the convolution is embedded twice. The functions \<open>accumulate\<close>
    to \<open>InpaintTask\<close> compute in exact reals and show the structure of the loops. The
    functions \<open>accumulate_rounded\<close> to \<open>InpaintTask_rounded\<close> take the conversions of the
    source's number types as parameters: to \<^verbatim>\<open>double\<close> for the products and the sums, to
    \<^verbatim>\<open>float\<close> for the accumulator, to the channel type for the store. The first are the
    second with conversions that round nothing. Values are finite: an overflow to
    infinity and NaN are not modelled.
  \<^item> An access outside an image buffer, undefined behaviour in the source, is the error
    \<open>OutOfRange\<close>.
  \<^item> The worker threads of the constructor are modelled by running the tasks one after
    the other in index order: tasks share nothing but the patch store, and each task
    touches it in one \<^verbatim>\<open>absorb\<close> under the insert lock.
\<close>

type_synonym vec2i = "int \<times> int"

type_synonym pixel = "nat \<Rightarrow> real"

datatype error = OutOfRange | EmptyImage | DegenerateMask

text \<open>
  Modelled from the spec: the class \<^verbatim>\<open>vw::BBox2i\<close> is not among the sources. A box is
  its two corners (``bounding box (min/max integer coordinates)''); \<open>expand\<close> moves
  each corner outward by the margin, and the width and height are the differences of
  the corners, which is the size the source gives to the mask and to the crop.
\<close>

record bbox2i =
  bb_min :: vec2i
  bb_max :: vec2i

definition expand :: "bbox2i \<Rightarrow> int \<Rightarrow> bbox2i" where
  "expand b n =
     \<lparr>bb_min = (fst (bb_min b) - n, snd (bb_min b) - n),
      bb_max = (fst (bb_max b) + n, snd (bb_max b) + n)\<rparr>"

definition width :: "bbox2i \<Rightarrow> int" where
  "width b = fst (bb_max b) - fst (bb_min b)"

definition height :: "bbox2i \<Rightarrow> int" where
  "height b = snd (bb_max b) - snd (bb_min b)"

text \<open>
  An image (\<^verbatim>\<open>vw::ImageView\<close>, or any view): its extent and its pixel at a coordinate.
\<close>

record 'a image_view =
  cols :: int
  rows :: int
  planes :: int
  pix :: "vec2i \<Rightarrow> 'a"

definition in_view :: "'a image_view \<Rightarrow> vec2i \<Rightarrow> bool" where
  "in_view v p = (0 \<le> fst p \<and> fst p < cols v \<and> 0 \<le> snd p \<and> snd p < rows v)"

definition set_pix :: "'a image_view \<Rightarrow> vec2i \<Rightarrow> 'a \<Rightarrow> error + 'a image_view" where
  "set_pix v p a =
     (if in_view v p then Inr (v\<lparr>pix := (pix v)(p := a)\<rparr>) else Inl OutOfRange)"

definition view_coords :: "'a image_view \<Rightarrow> vec2i list" where
  "view_coords v = concat (map (\<lambda>i. map (\<lambda>j. (i, j)) [0..rows v - 1]) [0..cols v - 1])"

text \<open>
  Modelled from the spec: the class \<^verbatim>\<open>blob::BlobCompressed\<close> (BlobIndexThreaded.h) is not
  among the sources. A defect region is ``its bounding box and an unordered set of
  interior pixel coordinates relative to the image origin''; \<open>decompress\<close> is the list
  the source's \<^verbatim>\<open>decompress\<close> fills.
\<close>

record blob_compressed =
  bounding_box :: bbox2i
  decompress :: "vec2i list"

text \<open>
  Modelled from the spec: the class \<^verbatim>\<open>SparseView\<close> (SparseView.h) is not among the
  sources. The store is ``a mapping from pixel coordinate to reconstructed value'';
  \<open>contains\<close> reports whether a coordinate is stored and hands its value back through
  the reference argument; \<open>absorb\<close> merges the valid pixels of a masked patch, placed at
  a starting index, into the store, the last writer winning.
\<close>

type_synonym sparse_view = "vec2i \<Rightarrow> pixel option"

definition contains :: "sparse_view \<Rightarrow> int \<Rightarrow> int \<Rightarrow> pixel \<Rightarrow> bool \<times> pixel" where
  "contains s i j pixel_ref =
     (case s (i, j) of None \<Rightarrow> (False, pixel_ref) | Some v \<Rightarrow> (True, v))"

definition absorb :: "sparse_view \<Rightarrow> vec2i \<Rightarrow> pixel option image_view \<Rightarrow> sparse_view" where
  "absorb s start patch =
     (\<lambda>q. let p = (fst q - fst start, snd q - snd start) in
           if in_view patch p
           then (case pix patch p of Some v \<Rightarrow> Some v | None \<Rightarrow> s q)
           else s q)"

text \<open>
  Modelled from the spec: \<^verbatim>\<open>crop\<close>, \<^verbatim>\<open>create_mask\<close> and \<^verbatim>\<open>copy_mask\<close> belong to the image
  library and are not among the sources. \<open>crop\<close> is ``a rectangular crop of the source
  image''; \<open>create_mask\<close> marks a pixel invalid where it equals the no-data value;
  \<open>copy_mask\<close> gives an image the validity of a masked one.
\<close>

definition crop :: "'a image_view \<Rightarrow> bbox2i \<Rightarrow> 'a image_view" where
  "crop v b =
     \<lparr>cols = width b, rows = height b, planes = planes v,
      pix = (\<lambda>p. pix v (fst p + fst (bb_min b), snd p + snd (bb_min b)))\<rparr>"

definition create_mask :: "8 word image_view \<Rightarrow> 8 word \<Rightarrow> 8 word option image_view" where
  "create_mask m nodata =
     \<lparr>cols = cols m, rows = rows m, planes = planes m,
      pix = (\<lambda>p. if pix m p = nodata then None else Some (pix m p))\<rparr>"

definition copy_mask :: "'a image_view \<Rightarrow> 'b option image_view \<Rightarrow> 'a option image_view" where
  "copy_mask v m =
     \<lparr>cols = cols v, rows = rows v, planes = planes v,
      pix = (\<lambda>p. case pix m p of None \<Rightarrow> None | Some _ \<Rightarrow> Some (pix v p))\<rparr>"

text \<open>
  Modelled from the spec: \<^verbatim>\<open>grassfire\<close> and \<^verbatim>\<open>max_pixel_value\<close> belong to the image library
  and are not among the sources. The distance field holds, at every interior pixel,
  ``its 4-connected grassfire distance to the nearest valid pixel, and valid pixels
  hold 0''; it ``fails only if the mask is degenerate'', with no valid pixel at all.
  The 4-connected distance between two pixels is the sum of the differences of their
  coordinates. \<open>max_pixel_value\<close> is the maximum over the pixels of an image, and has
  no value on an image without pixels.
\<close>

definition grassfire :: "8 word image_view \<Rightarrow> error + int image_view" where
  "grassfire mask_img =
     (let valid = filter (\<lambda>q. pix mask_img q = 0) (view_coords mask_img) in
      if valid = [] then Inl DegenerateMask
      else Inr \<lparr>cols = cols mask_img, rows = rows mask_img, planes = 1,
                pix = (\<lambda>p. if pix mask_img p = 0 then 0
                            else fold min
                                   (map (\<lambda>q. \<bar>fst p - fst q\<bar> + \<bar>snd p - snd q\<bar>) valid)
                                   (cols mask_img + rows mask_img))\<rparr>)"

definition max_pixel_value :: "int image_view \<Rightarrow> error + int" where
  "max_pixel_value d =
     (case view_coords d of
        [] \<Rightarrow> Inl EmptyImage
      | p # ps \<Rightarrow> Inr (fold (\<lambda>q m. max m (pix d q)) ps (pix d p)))"

section \<open>The patch task\<close>

text \<open>Which of its two closing log messages a task wrote.\<close>

datatype outcome = EarlyExit | Finished

text \<open>The test of lines 84--85 on the expanded box.\<close>

definition early_exit :: "'a image_view \<Rightarrow> bbox2i \<Rightarrow> bool" where
  "early_exit v bbox =
     (fst (bb_min bbox) < 0 \<or> snd (bb_min bbox) < 0 \<or>
      fst (bb_max bbox) \<ge> cols v \<or> snd (bb_max bbox) \<ge> rows v)"

definition blob_window :: "blob_compressed \<Rightarrow> bool \<Rightarrow> bbox2i" where
  "blob_window c_blob use_grassfire =
     (if use_grassfire then expand (bounding_box c_blob) 10
      else expand (bounding_box c_blob) 1)"

definition shift_blob :: "bbox2i \<Rightarrow> vec2i list \<Rightarrow> vec2i list" where
  "shift_blob bbox blob =
     map (\<lambda>p. (fst p - fst (bb_min bbox), snd p - snd (bb_min bbox))) blob"

definition blank_mask :: "int \<Rightarrow> int \<Rightarrow> 8 word image_view" where
  "blank_mask w h = \<lparr>cols = w, rows = h, planes = 1, pix = (\<lambda>p. 0)\<rparr>"

fun mark_blob :: "vec2i list \<Rightarrow> 8 word image_view \<Rightarrow> error + 8 word image_view" where
  "mark_blob [] mask_img = Inr mask_img"
| "mark_blob (p # ps) mask_img =
     (case set_pix mask_img p 255 of
        Inl e \<Rightarrow> Inl e
      | Inr mask_img' \<Rightarrow> mark_blob ps mask_img')"

text \<open>Lines 116--122: the order of convolution.\<close>

definition processing_order :: "int image_view \<Rightarrow> int \<Rightarrow> int \<Rightarrow> int \<Rightarrow> vec2i list" where
  "processing_order distance max_distance w h =
     concat (map (\<lambda>d.
       concat (map (\<lambda>i.
         concat (map (\<lambda>j. if pix distance (i, j) = d then [(i, j)] else [])
           [0..h - 1]))
         [0..w - 1]))
       [1..max_distance])"

text \<open>
  Lines 130--139: the eight weighted reads, in the order of the source. The sums are
  exact here; the next section has them with the conversions of the source's types.
\<close>

definition kernel :: "(real \<times> vec2i) list" where
  "kernel =
     [(0.176765, (-1, -1)), (0.176765, (-1, 1)), (0.176765, (1, -1)), (0.176765, (1, 1)),
      (0.073235, (1, 0)), (0.073235, (-1, 0)), (0.073235, (0, 1)), (0.073235, (0, -1))]"

fun accumulate ::
  "pixel image_view \<Rightarrow> nat \<Rightarrow> vec2i \<Rightarrow> (real \<times> vec2i) list \<Rightarrow> real \<Rightarrow> error + real" where
  "accumulate img c p [] acc = Inr acc"
| "accumulate img c p (k # ks) acc =
     (let q = (fst p + fst (snd k), snd p + snd (snd k)) in
      if in_view img q then accumulate img c p ks (acc + fst k * pix img q c)
      else Inl OutOfRange)"

definition convolve :: "nat \<Rightarrow> vec2i \<Rightarrow> pixel image_view \<Rightarrow> error + pixel image_view" where
  "convolve c p img =
     (case accumulate img c p kernel 0 of
        Inl e \<Rightarrow> Inl e
      | Inr acc \<Rightarrow> set_pix img p ((pix img p)(c := acc)))"

fun sweep :: "nat \<Rightarrow> vec2i list \<Rightarrow> pixel image_view \<Rightarrow> error + pixel image_view" where
  "sweep c [] img = Inr img"
| "sweep c (p # ps) img =
     (case convolve c p img of
        Inl e \<Rightarrow> Inl e
      | Inr img' \<Rightarrow> sweep c ps img')"

text \<open>Line 127: the loop \<^verbatim>\<open>for (int d = 0; d < n; d++)\<close> around one sweep.\<close>

function iterate ::
  "int \<Rightarrow> int \<Rightarrow> nat \<Rightarrow> vec2i list \<Rightarrow> pixel image_view \<Rightarrow> error + pixel image_view" where
  "iterate d n c order img =
     (if d < n
      then (case sweep c order img of
              Inl e \<Rightarrow> Inl e
            | Inr img' \<Rightarrow> iterate (d + 1) n c order img')
      else Inr img)"
  by pat_completeness auto
termination
  by (relation "measure (\<lambda>(d, n, c, order, img). nat (n - d))") auto

declare iterate.simps [simp del]

text \<open>Line 125: the loop over the channels of the pixel type.\<close>

fun channels ::
  "nat list \<Rightarrow> int \<Rightarrow> vec2i list \<Rightarrow> pixel image_view \<Rightarrow> error + pixel image_view" where
  "channels [] n order img = Inr img"
| "channels (c # cs) n order img =
     (case iterate 0 n c order img of
        Inl e \<Rightarrow> Inl e
      | Inr img' \<Rightarrow> channels cs n order img')"

text \<open>
  Lines 113--140, the diffusion branch once the distance field is there.
  \<open>num_channels\<close> stands for \<^verbatim>\<open>PixelNumChannels<pixel_type>::value\<close>.
\<close>

definition diffuse_from ::
  "nat \<Rightarrow> int image_view \<Rightarrow> int \<Rightarrow> int \<Rightarrow> pixel image_view \<Rightarrow> error + pixel image_view" where
  "diffuse_from num_channels distance w h cropped_copy =
     (case max_pixel_value distance of
        Inl e \<Rightarrow> Inl e
      | Inr max_distance \<Rightarrow>
          channels [0..<num_channels] (10 * max_distance * max_distance)
            (processing_order distance max_distance w h) cropped_copy)"

text \<open>Lines 110--140: the distance field of the mask, then the diffusion.\<close>

definition diffuse ::
  "nat \<Rightarrow> 8 word image_view \<Rightarrow> int \<Rightarrow> int \<Rightarrow> pixel image_view \<Rightarrow> error + pixel image_view" where
  "diffuse num_channels mask_img w h cropped_copy =
     (case grassfire mask_img of
        Inl e \<Rightarrow> Inl e
      | Inr distance \<Rightarrow> diffuse_from num_channels distance w h cropped_copy)"

text \<open>Lines 142--144, the flat branch.\<close>

fun flat_fill :: "vec2i list \<Rightarrow> pixel \<Rightarrow> pixel image_view \<Rightarrow> error + pixel image_view" where
  "flat_fill [] val img = Inr img"
| "flat_fill (p # ps) val img =
     (case set_pix img p val of
        Inl e \<Rightarrow> Inl e
      | Inr img' \<Rightarrow> flat_fill ps val img')"

text \<open>
  \<^verbatim>\<open>InpaintTask::operator()\<close>. The task returns the patch store after its \<^verbatim>\<open>absorb\<close>,
  together with the closing message it logged.
\<close>

definition InpaintTask ::
  "nat \<Rightarrow> pixel image_view \<Rightarrow> blob_compressed \<Rightarrow> bool \<Rightarrow> pixel \<Rightarrow> sparse_view
     \<Rightarrow> error + (outcome \<times> sparse_view)" where
  "InpaintTask num_channels view c_blob use_grassfire default_inpaint_val patches =
     (let bbox = blob_window c_blob use_grassfire in
      if early_exit view bbox then Inr (EarlyExit, patches)
      else
        let blob = shift_blob bbox (decompress c_blob);
            cropped_copy = crop view bbox
        in case mark_blob blob (blank_mask (width bbox) (height bbox)) of
             Inl e \<Rightarrow> Inl e
           | Inr mask_img \<Rightarrow>
               (case (if use_grassfire
                      then diffuse num_channels mask_img (width bbox) (height bbox) cropped_copy
                      else flat_fill blob default_inpaint_val cropped_copy) of
                  Inl e \<Rightarrow> Inl e
                | Inr filled \<Rightarrow>
                    Inr (Finished,
                         absorb patches (bb_min bbox) (copy_mask filled (create_mask mask_img 0)))))"

section \<open>The patch task in the arithmetic of the source\<close>

text \<open>
  Lines 130--139 in the number types of the source. The weights are \<^verbatim>\<open>double\<close>
  literals and a channel value is converted to \<^verbatim>\<open>double\<close> for the product; the
  statement \<^verbatim>\<open>sum += w * x\<close> adds in \<^verbatim>\<open>double\<close> and rounds the result to the
  \<^verbatim>\<open>float\<close> variable \<^verbatim>\<open>sum\<close>; the store of line 139 converts \<^verbatim>\<open>sum\<close> to the
  channel type. The three conversions are parameters: the channel type is a template
  parameter of the source. The rest of the task is as above.
\<close>

record rounding =
  to_double :: "real \<Rightarrow> real"
  to_float :: "real \<Rightarrow> real"
  to_channel :: "real \<Rightarrow> real"

text \<open>One statement \<^verbatim>\<open>sum += w * x\<close>.\<close>

definition add_weighted :: "rounding \<Rightarrow> real \<Rightarrow> real \<Rightarrow> real \<Rightarrow> real" where
  "add_weighted rd acc w x =
     to_float rd (to_double rd (acc + to_double rd (to_double rd w * to_double rd x)))"

fun accumulate_rounded ::
  "rounding \<Rightarrow> pixel image_view \<Rightarrow> nat \<Rightarrow> vec2i \<Rightarrow> (real \<times> vec2i) list \<Rightarrow> real \<Rightarrow> error + real" where
  "accumulate_rounded rd img c p [] acc = Inr acc"
| "accumulate_rounded rd img c p (k # ks) acc =
     (let q = (fst p + fst (snd k), snd p + snd (snd k)) in
      if in_view img q
      then accumulate_rounded rd img c p ks (add_weighted rd acc (fst k) (pix img q c))
      else Inl OutOfRange)"

definition convolve_rounded ::
  "rounding \<Rightarrow> nat \<Rightarrow> vec2i \<Rightarrow> pixel image_view \<Rightarrow> error + pixel image_view" where
  "convolve_rounded rd c p img =
     (case accumulate_rounded rd img c p kernel 0 of
        Inl e \<Rightarrow> Inl e
      | Inr acc \<Rightarrow> set_pix img p ((pix img p)(c := to_channel rd acc)))"

fun sweep_rounded ::
  "rounding \<Rightarrow> nat \<Rightarrow> vec2i list \<Rightarrow> pixel image_view \<Rightarrow> error + pixel image_view" where
  "sweep_rounded rd c [] img = Inr img"
| "sweep_rounded rd c (p # ps) img =
     (case convolve_rounded rd c p img of
        Inl e \<Rightarrow> Inl e
      | Inr img' \<Rightarrow> sweep_rounded rd c ps img')"

function iterate_rounded ::
  "rounding \<Rightarrow> int \<Rightarrow> int \<Rightarrow> nat \<Rightarrow> vec2i list \<Rightarrow> pixel image_view \<Rightarrow> error + pixel image_view" where
  "iterate_rounded rd d n c order img =
     (if d < n
      then (case sweep_rounded rd c order img of
              Inl e \<Rightarrow> Inl e
            | Inr img' \<Rightarrow> iterate_rounded rd (d + 1) n c order img')
      else Inr img)"
  by pat_completeness auto
termination
  by (relation "measure (\<lambda>(rd, d, n, c, order, img). nat (n - d))") auto

declare iterate_rounded.simps [simp del]

fun channels_rounded ::
  "rounding \<Rightarrow> nat list \<Rightarrow> int \<Rightarrow> vec2i list \<Rightarrow> pixel image_view \<Rightarrow> error + pixel image_view" where
  "channels_rounded rd [] n order img = Inr img"
| "channels_rounded rd (c # cs) n order img =
     (case iterate_rounded rd 0 n c order img of
        Inl e \<Rightarrow> Inl e
      | Inr img' \<Rightarrow> channels_rounded rd cs n order img')"

definition diffuse_from_rounded ::
  "rounding \<Rightarrow> nat \<Rightarrow> int image_view \<Rightarrow> int \<Rightarrow> int \<Rightarrow> pixel image_view
     \<Rightarrow> error + pixel image_view" where
  "diffuse_from_rounded rd num_channels distance w h cropped_copy =
     (case max_pixel_value distance of
        Inl e \<Rightarrow> Inl e
      | Inr max_distance \<Rightarrow>
          channels_rounded rd [0..<num_channels] (10 * max_distance * max_distance)
            (processing_order distance max_distance w h) cropped_copy)"

definition diffuse_rounded ::
  "rounding \<Rightarrow> nat \<Rightarrow> 8 word image_view \<Rightarrow> int \<Rightarrow> int \<Rightarrow> pixel image_view
     \<Rightarrow> error + pixel image_view" where
  "diffuse_rounded rd num_channels mask_img w h cropped_copy =
     (case grassfire mask_img of
        Inl e \<Rightarrow> Inl e
      | Inr distance \<Rightarrow> diffuse_from_rounded rd num_channels distance w h cropped_copy)"

definition InpaintTask_rounded ::
  "rounding \<Rightarrow> nat \<Rightarrow> pixel image_view \<Rightarrow> blob_compressed \<Rightarrow> bool \<Rightarrow> pixel \<Rightarrow> sparse_view
     \<Rightarrow> error + (outcome \<times> sparse_view)" where
  "InpaintTask_rounded rd num_channels view c_blob use_grassfire default_inpaint_val patches =
     (let bbox = blob_window c_blob use_grassfire in
      if early_exit view bbox then Inr (EarlyExit, patches)
      else
        let blob = shift_blob bbox (decompress c_blob);
            cropped_copy = crop view bbox
        in case mark_blob blob (blank_mask (width bbox) (height bbox)) of
             Inl e \<Rightarrow> Inl e
           | Inr mask_img \<Rightarrow>
               (case (if use_grassfire
                      then diffuse_rounded rd num_channels mask_img (width bbox) (height bbox)
                             cropped_copy
                      else flat_fill blob default_inpaint_val cropped_copy) of
                  Inl e \<Rightarrow> Inl e
                | Inr filled \<Rightarrow>
                    Inr (Finished,
                         absorb patches (bb_min bbox) (copy_mask filled (create_mask mask_img 0)))))"

section \<open>The overlay view\<close>

record inpaint_view =
  m_child :: "pixel image_view"
  m_patches :: sparse_view
  m_use_grassfire :: bool
  m_default_inpaint_val :: pixel

text \<open>Lines 204--210: one task per blob, all joined before the constructor returns.\<close>

fun run_tasks ::
  "nat \<Rightarrow> pixel image_view \<Rightarrow> blob_compressed list \<Rightarrow> bool \<Rightarrow> pixel \<Rightarrow> sparse_view
     \<Rightarrow> error + sparse_view" where
  "run_tasks num_channels src_image [] use_grassfire val patches = Inr patches"
| "run_tasks num_channels src_image (b # bs) use_grassfire val patches =
     (case InpaintTask num_channels src_image b use_grassfire val patches of
        Inl e \<Rightarrow> Inl e
      | Inr r \<Rightarrow> run_tasks num_channels src_image bs use_grassfire val (snd r))"

definition InpaintView ::
  "nat \<Rightarrow> pixel image_view \<Rightarrow> blob_compressed list \<Rightarrow> bool \<Rightarrow> pixel \<Rightarrow> error + inpaint_view" where
  "InpaintView num_channels src_image bindex use_grassfire default_inpaint_val =
     (case run_tasks num_channels src_image bindex use_grassfire default_inpaint_val Map.empty of
        Inl e \<Rightarrow> Inl e
      | Inr patches \<Rightarrow>
          Inr \<lparr>m_child = src_image, m_patches = patches, m_use_grassfire = use_grassfire,
               m_default_inpaint_val = default_inpaint_val\<rparr>)"

definition iv_cols :: "inpaint_view \<Rightarrow> int" where
  "iv_cols v = cols (m_child v)"

definition iv_rows :: "inpaint_view \<Rightarrow> int" where
  "iv_rows v = rows (m_child v)"

definition iv_planes :: "inpaint_view \<Rightarrow> int" where
  "iv_planes v = 1"

text \<open>Lines 222--227: the pixel read. The reference starts as a default pixel.\<close>

definition iv_pixel :: "inpaint_view \<Rightarrow> int \<Rightarrow> int \<Rightarrow> pixel" where
  "iv_pixel v i j =
     (let r = contains (m_patches v) i j (\<lambda>c. 0) in
      if fst r then snd r else pix (m_child v) (i, j))"

text \<open>
  Lines 173--180 and 229--233: the private constructor and \<open>prerasterize\<close>. The
  prerasterization of the child view is a parameter.
\<close>

definition InpaintView_copy ::
  "pixel image_view \<Rightarrow> inpaint_view \<Rightarrow> bool \<Rightarrow> pixel \<Rightarrow> inpaint_view" where
  "InpaintView_copy src_image other use_grassfire default_inpaint_val =
     \<lparr>m_child = src_image, m_patches = m_patches other, m_use_grassfire = use_grassfire,
      m_default_inpaint_val = default_inpaint_val\<rparr>"

definition prerasterize ::
  "(pixel image_view \<Rightarrow> bbox2i \<Rightarrow> pixel image_view) \<Rightarrow> inpaint_view \<Rightarrow> bbox2i \<Rightarrow> inpaint_view" where
  "prerasterize child_prerasterize v bbox =
     InpaintView_copy (child_prerasterize (m_child v) bbox) v
       (m_use_grassfire v) (m_default_inpaint_val v)"

section \<open>Notions of the specification\<close>

text \<open>
  The window of a box is the pixels from its minimum corner up to, and without, its
  maximum corner: the \<open>width\<close> by \<open>height\<close> pixels the source crops and masks. The
  window ``lies inside the image'' when all of them are pixels of the image.
\<close>

definition window_inside :: "'a image_view \<Rightarrow> bbox2i \<Rightarrow> bool" where
  "window_inside v bbox =
     (0 \<le> fst (bb_min bbox) \<and> 0 \<le> snd (bb_min bbox) \<and>
      fst (bb_max bbox) \<le> cols v \<and> snd (bb_max bbox) \<le> rows v)"

text \<open>The corners of a box are in order.\<close>

definition ordered_box :: "bbox2i \<Rightarrow> bool" where
  "ordered_box b = (fst (bb_min b) \<le> fst (bb_max b) \<and> snd (bb_min b) \<le> snd (bb_max b))"

text \<open>
  A blob is well formed when the corners of its bounding box are in order and every
  one of its coordinates lies between them.
\<close>

definition well_formed_blob :: "blob_compressed \<Rightarrow> bool" where
  "well_formed_blob b =
     (ordered_box (bounding_box b) \<and>
      list_all (\<lambda>p. fst (bb_min (bounding_box b)) \<le> fst p \<and> fst p \<le> fst (bb_max (bounding_box b)) \<and>
                     snd (bb_min (bounding_box b)) \<le> snd p \<and> snd p \<le> snd (bb_max (bounding_box b)))
        (decompress b))"

text \<open>The coordinates of a sub-region handed to \<open>prerasterize\<close>.\<close>

definition in_region :: "bbox2i \<Rightarrow> vec2i \<Rightarrow> bool" where
  "in_region r p =
     (fst (bb_min r) \<le> fst p \<and> fst p < fst (bb_max r) \<and>
      snd (bb_min r) \<le> snd p \<and> snd p < snd (bb_max r))"

text \<open>
  Diffusion in the words of the specification: ``the new value is a fixed-weight
  convolution of its 8 neighbors: the four diagonal neighbors each contribute weight
  0.176765, the four orthogonal neighbors each contribute weight 0.073235'', and the
  ``full sweep over the ascending-distance ordering is repeated \<open>10 \<times> maxDistance\<^sup>2\<close>
  times per channel''.
\<close>

definition spec_convolution :: "pixel image_view \<Rightarrow> nat \<Rightarrow> vec2i \<Rightarrow> real" where
  "spec_convolution img c p =
     0.176765 * (pix img (fst p - 1, snd p - 1) c + pix img (fst p - 1, snd p + 1) c +
                 pix img (fst p + 1, snd p - 1) c + pix img (fst p + 1, snd p + 1) c) +
     0.073235 * (pix img (fst p + 1, snd p) c + pix img (fst p - 1, snd p) c +
                 pix img (fst p, snd p + 1) c + pix img (fst p, snd p - 1) c)"

definition spec_update :: "nat \<Rightarrow> vec2i \<Rightarrow> pixel image_view \<Rightarrow> pixel image_view" where
  "spec_update c p img = img\<lparr>pix := (pix img)(p := (pix img p)(c := spec_convolution img c p))\<rparr>"

definition spec_sweep :: "nat \<Rightarrow> vec2i list \<Rightarrow> pixel image_view \<Rightarrow> pixel image_view" where
  "spec_sweep c order img = fold (spec_update c) order img"

definition spec_diffusion ::
  "nat \<Rightarrow> vec2i list \<Rightarrow> int \<Rightarrow> pixel image_view \<Rightarrow> pixel image_view" where
  "spec_diffusion num_channels order max_distance img =
     fold (\<lambda>c. (spec_sweep c order) ^^ nat (10 * max_distance * max_distance))
       [0..<num_channels] img"

text \<open>A pixel whose eight neighbours lie in the image.\<close>

definition has_neighbours :: "'a image_view \<Rightarrow> vec2i \<Rightarrow> bool" where
  "has_neighbours img p =
     (1 \<le> fst p \<and> fst p + 1 < cols img \<and> 1 \<le> snd p \<and> snd p + 1 < rows img)"

text \<open>
  The diffusion with conversions, as a function on windows: what the rounded loops
  compute where every pixel of the order has its neighbours in the window.
\<close>

definition rounded_convolution :: "rounding \<Rightarrow> pixel image_view \<Rightarrow> nat \<Rightarrow> vec2i \<Rightarrow> real" where
  "rounded_convolution rd img c p =
     fold (\<lambda>k acc. add_weighted rd acc (fst k) (pix img (fst p + fst (snd k), snd p + snd (snd k)) c))
       kernel 0"

definition rounded_update :: "rounding \<Rightarrow> nat \<Rightarrow> vec2i \<Rightarrow> pixel image_view \<Rightarrow> pixel image_view" where
  "rounded_update rd c p img =
     img\<lparr>pix := (pix img)(p := (pix img p)(c := to_channel rd (rounded_convolution rd img c p)))\<rparr>"


text \<open>
  Conversions that round nothing, and the property of a conversion to keep the sign of
  a number.
\<close>

definition no_rounding :: rounding where
  "no_rounding = \<lparr>to_double = (\<lambda>x. x), to_float = (\<lambda>x. x), to_channel = (\<lambda>x. x)\<rparr>"





section \<open>Concrete inputs\<close>

text \<open>
  A 10 by 10 image of constant value 7, with a one-pixel blob at (5, 5), a one-pixel
  blob at (0, 5) on the left edge, a one-pixel blob at (8, 8), whose window of 3 by 3
  pixels ends on the last column and the last row of the image, and a blob of six
  pixels from (0, 5) to (5, 5), which holds the pixel of the first.
\<close>

definition example_image :: "pixel image_view" where
  "example_image = \<lparr>cols = 10, rows = 10, planes = 3, pix = (\<lambda>p c. 7)\<rparr>"

definition example_blob :: blob_compressed where
  "example_blob =
     \<lparr>bounding_box = \<lparr>bb_min = (5, 5), bb_max = (6, 6)\<rparr>, decompress = [(5, 5)]\<rparr>"

definition edge_blob :: blob_compressed where
  "edge_blob =
     \<lparr>bounding_box = \<lparr>bb_min = (0, 5), bb_max = (1, 6)\<rparr>, decompress = [(0, 5)]\<rparr>"

definition corner_blob :: blob_compressed where
  "corner_blob =
     \<lparr>bounding_box = \<lparr>bb_min = (8, 8), bb_max = (9, 9)\<rparr>, decompress = [(8, 8)]\<rparr>"

definition wide_blob :: blob_compressed where
  "wide_blob =
     \<lparr>bounding_box = \<lparr>bb_min = (0, 5), bb_max = (6, 6)\<rparr>,
      decompress = [(0, 5), (1, 5), (2, 5), (3, 5), (4, 5), (5, 5)]\<rparr>"

definition zero_pixel :: pixel where
  "zero_pixel = (\<lambda>c. 0)"

definition example_store :: sparse_view where
  "example_store = Map.empty((5, 5) \<mapsto> zero_pixel)"

definition example_overlay :: inpaint_view where
  "example_overlay =
     \<lparr>m_child = example_image, m_patches = example_store, m_use_grassfire = False,
      m_default_inpaint_val = zero_pixel\<rparr>"

definition unpatched_overlay :: inpaint_view where
  "unpatched_overlay =
     \<lparr>m_child = example_image, m_patches = Map.empty, m_use_grassfire = False,
      m_default_inpaint_val = zero_pixel\<rparr>"

text \<open>A prerasterization of the child that keeps the pixels of the region only.\<close>

definition example_prerasterize :: "pixel image_view \<Rightarrow> bbox2i \<Rightarrow> pixel image_view" where
  "example_prerasterize v r = v\<lparr>pix := (\<lambda>p. if in_region r p then pix v p else zero_pixel)\<rparr>"

definition example_region :: bbox2i where
  "example_region = \<lparr>bb_min = (4, 4), bb_max = (8, 8)\<rparr>"


definition dark_image :: "pixel image_view" where
  "dark_image = \<lparr>cols = 32, rows = 32, planes = 1, pix = (\<lambda>p c. 0)\<rparr>"

definition two_pixel_blob :: blob_compressed where
  "two_pixel_blob =
     \<lparr>bounding_box = \<lparr>bb_min = (10, 10), bb_max = (12, 11)\<rparr>,
      decompress = [(10, 10), (11, 10)]\<rparr>"

definition two_pixel_window :: bbox2i where
  "two_pixel_window = \<lparr>bb_min = (0, 0), bb_max = (22, 21)\<rparr>"









section \<open>The store after a task\<close>

text \<open>
  What the mask, the flat fill and \<open>absorb\<close> do to the store: a task that runs to its
  end stores the filled window at the coordinates of its blob and nowhere else.
\<close>

lemma set_pix_Inr:
  "set_pix v p a = Inr v' \<Longrightarrow>
     in_view v p \<and> cols v' = cols v \<and> rows v' = rows v \<and> pix v' = (pix v)(p := a)"
  by (auto simp: set_pix_def split: if_splits)

lemma mark_blob_Inr:
  "mark_blob ps m = Inr m' \<Longrightarrow>
     cols m' = cols m \<and> rows m' = rows m \<and> (\<forall>p\<in>set ps. in_view m p) \<and>
     (\<forall>q. pix m' q = (if q \<in> set ps then 255 else pix m q))"
proof (induction ps arbitrary: m)
  case Nil
  then show ?case by simp
next
  case (Cons p ps)
  from Cons.prems obtain m1 where s: "set_pix m p 255 = Inr m1" and r: "mark_blob ps m1 = Inr m'"
    by (auto split: sum.splits)
  from set_pix_Inr [OF s] have m1: "in_view m p" "cols m1 = cols m" "rows m1 = rows m"
    "pix m1 = (pix m)(p := 255)" by simp_all
  from Cons.IH [OF r] have ih: "cols m' = cols m1" "rows m' = rows m1"
    "\<forall>p\<in>set ps. in_view m1 p" "\<forall>q. pix m' q = (if q \<in> set ps then 255 else pix m1 q)"
    by simp_all
  show ?case using m1 ih by (auto simp: in_view_def)
qed

lemma mark_blob_total:
  "(\<forall>p\<in>set ps. in_view m p) \<Longrightarrow> \<exists>m'. mark_blob ps m = Inr m'"
proof (induction ps arbitrary: m)
  case Nil
  then show ?case by simp
next
  case (Cons p ps)
  let ?m1 = "m\<lparr>pix := (pix m)(p := 255)\<rparr>"
  have s: "set_pix m p 255 = Inr ?m1" using Cons.prems by (simp add: set_pix_def)
  have "\<forall>p\<in>set ps. in_view ?m1 p" using Cons.prems by (simp add: in_view_def)
  from Cons.IH [OF this] show ?case using s by simp
qed

lemma flat_fill_Inr:
  "flat_fill ps a img = Inr img' \<Longrightarrow>
     cols img' = cols img \<and> rows img' = rows img \<and> (\<forall>p\<in>set ps. in_view img p) \<and>
     (\<forall>q. pix img' q = (if q \<in> set ps then a else pix img q))"
proof (induction ps arbitrary: img)
  case Nil
  then show ?case by simp
next
  case (Cons p ps)
  from Cons.prems obtain m1 where s: "set_pix img p a = Inr m1" and r: "flat_fill ps a m1 = Inr img'"
    by (auto split: sum.splits)
  from set_pix_Inr [OF s] have m1: "in_view img p" "cols m1 = cols img" "rows m1 = rows img"
    "pix m1 = (pix img)(p := a)" by simp_all
  from Cons.IH [OF r] have ih: "cols img' = cols m1" "rows img' = rows m1"
    "\<forall>p\<in>set ps. in_view m1 p" "\<forall>q. pix img' q = (if q \<in> set ps then a else pix m1 q)"
    by simp_all
  show ?case using m1 ih by (auto simp: in_view_def)
qed

lemma flat_fill_total:
  "(\<forall>p\<in>set ps. in_view img p) \<Longrightarrow> \<exists>img'. flat_fill ps a img = Inr img'"
proof (induction ps arbitrary: img)
  case Nil
  then show ?case by simp
next
  case (Cons p ps)
  let ?m1 = "img\<lparr>pix := (pix img)(p := a)\<rparr>"
  have s: "set_pix img p a = Inr ?m1" using Cons.prems by (simp add: set_pix_def)
  have "\<forall>p\<in>set ps. in_view ?m1 p" using Cons.prems by (simp add: in_view_def)
  from Cons.IH [OF this] show ?case using s by simp
qed

lemma shift_blob_mem:
  "(fst q - fst (bb_min bbox), snd q - snd (bb_min bbox)) \<in> set (shift_blob bbox blob) \<longleftrightarrow> q \<in> set blob"
  by (auto simp: shift_blob_def image_iff prod_eq_iff)

lemma mask_of_blob:
  assumes "mark_blob (shift_blob bbox blob) (blank_mask w h) = Inr mask_img"
  shows "pix mask_img p = (if p \<in> set (shift_blob bbox blob) then 255 else 0)"
proof -
  from mark_blob_Inr [OF assms] have "\<forall>p. pix mask_img p =
      (if p \<in> set (shift_blob bbox blob) then 255 else pix (blank_mask w h) p)"
    by blast
  then show ?thesis by (cases p) (simp add: blank_mask_def)
qed

lemma absorb_outside:
  assumes "mark_blob (shift_blob bbox blob) (blank_mask w h) = Inr mask_img"
    and "q \<notin> set blob"
  shows "absorb patches (bb_min bbox) (copy_mask filled (create_mask mask_img 0)) q = patches q"
proof -
  let ?p = "(fst q - fst (bb_min bbox), snd q - snd (bb_min bbox))"
  from assms(2) have "?p \<notin> set (shift_blob bbox blob)" by (simp add: shift_blob_mem)
  then show ?thesis using mask_of_blob [OF assms(1), of ?p]
    by (simp add: absorb_def copy_mask_def create_mask_def Let_def)
qed

lemma absorb_inside:
  assumes "mark_blob (shift_blob bbox blob) (blank_mask w h) = Inr mask_img"
    and "cols filled = w" and "rows filled = h" and "q \<in> set blob"
  shows "absorb patches (bb_min bbox) (copy_mask filled (create_mask mask_img 0)) q =
           Some (pix filled (fst q - fst (bb_min bbox), snd q - snd (bb_min bbox)))"
proof -
  let ?p = "(fst q - fst (bb_min bbox), snd q - snd (bb_min bbox))"
  from assms(4) have mem: "?p \<in> set (shift_blob bbox blob)" by (simp add: shift_blob_mem)
  from mark_blob_Inr [OF assms(1)] mem have "in_view (blank_mask w h) ?p" by blast
  then have "in_view (copy_mask filled (create_mask mask_img 0)) ?p"
    using assms(2,3) by (simp add: in_view_def copy_mask_def blank_mask_def)
  then show ?thesis using mem mask_of_blob [OF assms(1), of ?p]
    by (simp add: absorb_def copy_mask_def create_mask_def Let_def)
qed

lemma InpaintTask_early:
  "early_exit view (blob_window b g) \<Longrightarrow> InpaintTask n view b g d patches = Inr (EarlyExit, patches)"
  by (simp add: InpaintTask_def)

lemma InpaintTask_run:
  assumes "\<not> early_exit view (blob_window b g)"
    and "InpaintTask n view b g d patches = Inr r"
  shows "\<exists>mask_img filled.
           mark_blob (shift_blob (blob_window b g) (decompress b))
             (blank_mask (width (blob_window b g)) (height (blob_window b g))) = Inr mask_img \<and>
           (if g then diffuse n mask_img (width (blob_window b g)) (height (blob_window b g))
                        (crop view (blob_window b g))
            else flat_fill (shift_blob (blob_window b g) (decompress b)) d
                        (crop view (blob_window b g))) = Inr filled \<and>
           r = (Finished, absorb patches (bb_min (blob_window b g))
                            (copy_mask filled (create_mask mask_img 0)))"
  using assms by (auto simp: InpaintTask_def Let_def split: sum.splits if_splits)

lemma InpaintTask_outside:
  assumes "InpaintTask n view b g d patches = Inr r"
    and "q \<notin> set (decompress b) \<or> early_exit view (blob_window b g)"
  shows "snd r q = patches q"
proof (cases "early_exit view (blob_window b g)")
  case True
  then show ?thesis using assms(1) by (auto simp: InpaintTask_early)
next
  case False
  with assms(2) have q: "q \<notin> set (decompress b)" by simp
  from InpaintTask_run [OF False assms(1)] obtain mask_img filled where
    m: "mark_blob (shift_blob (blob_window b g) (decompress b))
          (blank_mask (width (blob_window b g)) (height (blob_window b g))) = Inr mask_img"
    and r: "r = (Finished, absorb patches (bb_min (blob_window b g))
                            (copy_mask filled (create_mask mask_img 0)))"
    by blast
  show ?thesis using q by (simp add: r absorb_outside [OF m])
qed

lemma run_tasks_outside:
  "run_tasks n view bs g d patches = Inr patches' \<Longrightarrow>
   (\<forall>b\<in>set bs. q \<notin> set (decompress b) \<or> early_exit view (blob_window b g)) \<Longrightarrow>
   patches' q = patches q"
proof (induction bs arbitrary: patches)
  case Nil
  then show ?case by simp
next
  case (Cons b bs)
  from Cons.prems(1) obtain r where t: "InpaintTask n view b g d patches = Inr r"
    and rest: "run_tasks n view bs g d (snd r) = Inr patches'"
    by (auto split: sum.splits)
  have "patches' q = snd r q" using Cons.IH [OF rest] Cons.prems(2) by simp
  also have "\<dots> = patches q" using InpaintTask_outside [OF t] Cons.prems(2) by simp
  finally show ?case .
qed

lemma crop_dims: "cols (crop v b) = width b" "rows (crop v b) = height b"
  by (simp_all add: crop_def)

lemma InpaintTask_flat_inside:
  assumes "InpaintTask n view b False d patches = Inr r"
    and "\<not> early_exit view (blob_window b False)" and "q \<in> set (decompress b)"
  shows "snd r q = Some d"
proof -
  let ?bbox = "blob_window b False"
  let ?p = "(fst q - fst (bb_min ?bbox), snd q - snd (bb_min ?bbox))"
  from InpaintTask_run [OF assms(2) assms(1)] obtain mask_img filled where
    m: "mark_blob (shift_blob ?bbox (decompress b))
          (blank_mask (width ?bbox) (height ?bbox)) = Inr mask_img"
    and f: "flat_fill (shift_blob ?bbox (decompress b)) d (crop view ?bbox) = Inr filled"
    and r: "r = (Finished, absorb patches (bb_min ?bbox)
                            (copy_mask filled (create_mask mask_img 0)))"
    by auto
  note ff = flat_fill_Inr [OF f]
  from ff have dims: "cols filled = width ?bbox" "rows filled = height ?bbox"
    by (simp_all add: crop_dims)
  from assms(3) have "?p \<in> set (shift_blob ?bbox (decompress b))" by (simp add: shift_blob_mem)
  with ff have "pix filled ?p = d" by simp
  then show ?thesis by (simp add: r absorb_inside [OF m dims assms(3)])
qed

lemma InpaintTask_flat_value:
  assumes "InpaintTask n view b False d patches = Inr r"
  shows "snd r q = Some d \<or> snd r q = patches q"
proof (cases "q \<notin> set (decompress b) \<or> early_exit view (blob_window b False)")
  case True
  then show ?thesis using InpaintTask_outside [OF assms] by simp
next
  case False
  then show ?thesis using InpaintTask_flat_inside [OF assms] by simp
qed

lemma run_tasks_flat_value:
  "run_tasks n view bs False d patches = Inr patches' \<Longrightarrow>
   patches' q = Some d \<or> patches' q = patches q"
proof (induction bs arbitrary: patches)
  case Nil
  then show ?case by simp
next
  case (Cons b bs)
  from Cons.prems(1) obtain r where t: "InpaintTask n view b False d patches = Inr r"
    and rest: "run_tasks n view bs False d (snd r) = Inr patches'"
    by (auto split: sum.splits)
  show ?case using Cons.IH [OF rest] InpaintTask_flat_value [OF t, of q] by auto
qed

lemma run_tasks_flat_inside:
  "run_tasks n view bs False d patches = Inr patches' \<Longrightarrow> b \<in> set bs \<Longrightarrow>
   \<not> early_exit view (blob_window b False) \<Longrightarrow> q \<in> set (decompress b) \<Longrightarrow>
   patches' q = Some d"
proof (induction bs arbitrary: patches)
  case Nil
  then show ?case by simp
next
  case (Cons a bs)
  from Cons.prems(1) obtain r where t: "InpaintTask n view a False d patches = Inr r"
    and rest: "run_tasks n view bs False d (snd r) = Inr patches'"
    by (auto split: sum.splits)
  show ?case
  proof (cases "b = a")
    case True
    then have "snd r q = Some d"
      using InpaintTask_flat_inside [OF t] Cons.prems(3,4) by simp
    then show ?thesis using run_tasks_flat_value [OF rest, of q] by auto
  next
    case False
    then have "b \<in> set bs" using Cons.prems(2) by simp
    then show ?thesis using Cons.IH [OF rest] Cons.prems(3,4) by simp
  qed
qed

lemma InpaintView_Inr:
  "InpaintView n view bs g d = Inr v \<Longrightarrow>
   m_child v = view \<and> m_use_grassfire v = g \<and> m_default_inpaint_val v = d \<and>
   run_tasks n view bs g d Map.empty = Inr (m_patches v)"
  by (auto simp: InpaintView_def split: sum.splits)

lemma iv_pixel_lookup:
  "iv_pixel v i j = (case m_patches v (i, j) of Some a \<Rightarrow> a | None \<Rightarrow> pix (m_child v) (i, j))"
  by (simp add: iv_pixel_def contains_def Let_def split: option.splits)

lemma early_exit_window:
  "early_exit v b \<longleftrightarrow>
     \<not> window_inside v b \<or> fst (bb_max b) = cols v \<or> snd (bb_max b) = rows v"
  by (auto simp: early_exit_def window_inside_def)

lemma window_inside_footprint:
  assumes "fst (bb_min b) < fst (bb_max b)" and "snd (bb_min b) < snd (bb_max b)"
  shows "window_inside v b \<longleftrightarrow> (\<forall>p. in_region b p \<longrightarrow> in_view v p)"
proof
  assume "window_inside v b"
  then show "\<forall>p. in_region b p \<longrightarrow> in_view v p"
    by (auto simp: window_inside_def in_region_def in_view_def)
next
  assume a: "\<forall>p. in_region b p \<longrightarrow> in_view v p"
  have "in_region b (bb_min b)" "in_region b (fst (bb_max b) - 1, snd (bb_max b) - 1)"
    using assms by (simp_all add: in_region_def)
  with a have "in_view v (bb_min b)" "in_view v (fst (bb_max b) - 1, snd (bb_max b) - 1)"
    by blast+
  then show "window_inside v b" by (simp add: window_inside_def in_view_def)
qed

lemma example_task:
  "InpaintTask n example_image example_blob False zero_pixel Map.empty = Inr (Finished, example_store)"
  by (simp add: InpaintTask_def example_image_def example_blob_def blob_window_def expand_def
      early_exit_def shift_blob_def width_def height_def blank_mask_def set_pix_def in_view_def
      crop_def absorb_def copy_mask_def create_mask_def example_store_def fun_eq_iff)

lemma example_overlay_built:
  "InpaintView n example_image [example_blob] False zero_pixel = Inr example_overlay"
  by (simp add: InpaintView_def example_task example_overlay_def)

lemma edge_task:
  "InpaintTask n example_image edge_blob False zero_pixel Map.empty = Inr (EarlyExit, Map.empty)"
  by (simp add: InpaintTask_def example_image_def edge_blob_def blob_window_def expand_def
      early_exit_def)

lemma edge_overlay_built:
  "InpaintView n example_image [edge_blob, example_blob] False zero_pixel = Inr example_overlay"
  by (simp add: InpaintView_def edge_task example_task example_overlay_def)

lemma corner_task:
  "InpaintTask n example_image corner_blob False zero_pixel Map.empty = Inr (EarlyExit, Map.empty)"
  by (simp add: InpaintTask_def example_image_def corner_blob_def blob_window_def expand_def
      early_exit_def)

lemma corner_overlay_built:
  "InpaintView n example_image [corner_blob] False zero_pixel = Inr unpatched_overlay"
  by (simp add: InpaintView_def corner_task unpatched_overlay_def)

lemma wide_task:
  "InpaintTask n example_image wide_blob False zero_pixel Map.empty = Inr (EarlyExit, Map.empty)"
  by (simp add: InpaintTask_def example_image_def wide_blob_def blob_window_def expand_def
      early_exit_def)

lemma wide_overlay_built:
  "InpaintView n example_image [wide_blob, example_blob] False zero_pixel = Inr example_overlay"
  by (simp add: InpaintView_def wide_task example_task example_overlay_def)

lemma example_image_not_zero: "pix example_image p \<noteq> zero_pixel"
  by (simp add: example_image_def zero_pixel_def fun_eq_iff)

lemma processed_window:
  "\<not> early_exit v b \<longleftrightarrow>
     window_inside v b \<and> fst (bb_max b) < cols v \<and> snd (bb_max b) < rows v"
  by (auto simp: early_exit_def window_inside_def)

section \<open>The diffusion loops\<close>

text \<open>
  The loops of lines 125--140 against the diffusion of the specification: where every
  pixel of the order has its eight neighbours in the window, the loops compute
  \<open>spec_sweep\<close> iterated, and where they return at all they have computed it.
\<close>

lemma accumulate_Inr:
  "accumulate img c p ks acc = Inr r \<Longrightarrow>
     r = acc + sum_list (map (\<lambda>k. fst k * pix img (fst p + fst (snd k), snd p + snd (snd k)) c) ks) \<and>
     (\<forall>k\<in>set ks. in_view img (fst p + fst (snd k), snd p + snd (snd k)))"
proof (induction ks arbitrary: acc)
  case Nil
  then show ?case by simp
next
  case (Cons k ks)
  let ?q = "(fst p + fst (snd k), snd p + snd (snd k))"
  from Cons.prems have v: "in_view img ?q"
    and r: "accumulate img c p ks (acc + fst k * pix img ?q c) = Inr r"
    by (simp_all add: Let_def split: if_splits)
  from Cons.IH [OF r] v show ?case by simp
qed

lemma accumulate_total:
  "(\<forall>k\<in>set ks. in_view img (fst p + fst (snd k), snd p + snd (snd k))) \<Longrightarrow>
     \<exists>r. accumulate img c p ks acc = Inr r"
  by (induction ks arbitrary: acc) (auto simp: Let_def)

lemma kernel_sum:
  "sum_list (map (\<lambda>k. fst k * pix img (fst p + fst (snd k), snd p + snd (snd k)) c) kernel) =
     spec_convolution img c p"
  by (simp add: kernel_def spec_convolution_def distrib_left)

lemma kernel_in_view:
  "has_neighbours img p \<Longrightarrow> \<forall>k\<in>set kernel. in_view img (fst p + fst (snd k), snd p + snd (snd k))"
  by (simp add: kernel_def has_neighbours_def in_view_def)

lemma kernel_in_view_conv:
  "\<forall>k\<in>set kernel. in_view img (fst p + fst (snd k), snd p + snd (snd k)) \<Longrightarrow> has_neighbours img p"
  by (simp add: kernel_def has_neighbours_def in_view_def)

lemma convolve_Inr:
  assumes "convolve c p img = Inr img'"
  shows "img' = spec_update c p img \<and> has_neighbours img p"
proof -
  from assms obtain r where a: "accumulate img c p kernel 0 = Inr r"
    and s: "set_pix img p ((pix img p)(c := r)) = Inr img'"
    by (auto simp: convolve_def split: sum.splits)
  from accumulate_Inr [OF a] have r: "r = spec_convolution img c p"
    and v: "\<forall>k\<in>set kernel. in_view img (fst p + fst (snd k), snd p + snd (snd k))"
    by (simp_all add: kernel_sum)
  from s have "img' = img\<lparr>pix := (pix img)(p := (pix img p)(c := r))\<rparr>"
    by (auto simp: set_pix_def split: if_splits)
  then show ?thesis using r kernel_in_view_conv [OF v] by (simp add: spec_update_def)
qed

lemma convolve_total:
  assumes "has_neighbours img p"
  shows "convolve c p img = Inr (spec_update c p img)"
proof -
  from accumulate_total [OF kernel_in_view [OF assms]]
  obtain r where a: "accumulate img c p kernel 0 = Inr r" by blast
  from accumulate_Inr [OF a] have r: "r = spec_convolution img c p" by (simp add: kernel_sum)
  have "in_view img p" using assms by (simp add: has_neighbours_def in_view_def)
  then show ?thesis using a r by (simp add: convolve_def set_pix_def spec_update_def)
qed

lemma spec_update_dims [simp]:
  "cols (spec_update c p img) = cols img" "rows (spec_update c p img) = rows img"
  by (simp_all add: spec_update_def)

lemma has_neighbours_update [simp]:
  "has_neighbours (spec_update c q img) p = has_neighbours img p"
  by (simp add: has_neighbours_def)

lemma spec_sweep_dims [simp]:
  "cols (spec_sweep c ps img) = cols img" "rows (spec_sweep c ps img) = rows img"
  by (induction ps arbitrary: img) (simp_all add: spec_sweep_def)

lemma sweep_Inr:
  "sweep c ps img = Inr img' \<Longrightarrow> img' = spec_sweep c ps img \<and> (\<forall>p\<in>set ps. has_neighbours img p)"
proof (induction ps arbitrary: img)
  case Nil
  then show ?case by (simp add: spec_sweep_def)
next
  case (Cons p ps)
  from Cons.prems obtain i1 where c: "convolve c p img = Inr i1" and r: "sweep c ps i1 = Inr img'"
    by (auto split: sum.splits)
  from convolve_Inr [OF c] have i1: "i1 = spec_update c p img" and n: "has_neighbours img p"
    by simp_all
  from Cons.IH [OF r] show ?case using i1 n by (simp add: spec_sweep_def)
qed

lemma sweep_total:
  "(\<forall>p\<in>set ps. has_neighbours img p) \<Longrightarrow> sweep c ps img = Inr (spec_sweep c ps img)"
proof (induction ps arbitrary: img)
  case Nil
  then show ?case by (simp add: spec_sweep_def)
next
  case (Cons p ps)
  have c: "convolve c p img = Inr (spec_update c p img)" using Cons.prems by (simp add: convolve_total)
  have "\<forall>q\<in>set ps. has_neighbours (spec_update c p img) q" using Cons.prems by simp
  from Cons.IH [OF this] show ?case using c by (simp add: spec_sweep_def)
qed

lemma funpow_sweep_dims [simp]:
  "cols ((spec_sweep c ps ^^ k) img) = cols img" "rows ((spec_sweep c ps ^^ k) img) = rows img"
  by (induction k) simp_all

lemma iterate_total:
  "(\<forall>p\<in>set ps. has_neighbours img p) \<Longrightarrow>
     iterate d n c ps img = Inr ((spec_sweep c ps ^^ nat (n - d)) img)"
proof (induction d n c ps img rule: iterate.induct)
  case (1 d n c order img)
  show ?case
  proof (cases "d < n")
    case True
    have s: "sweep c order img = Inr (spec_sweep c order img)"
      using "1.prems" by (rule sweep_total)
    have "\<forall>p\<in>set order. has_neighbours (spec_sweep c order img) p"
      using "1.prems" by (simp add: has_neighbours_def)
    from "1.IH" [OF True s this]
    have "iterate (d + 1) n c order (spec_sweep c order img) =
        Inr ((spec_sweep c order ^^ nat (n - (d + 1))) (spec_sweep c order img))" .
    moreover have "nat (n - d) = Suc (nat (n - (d + 1)))" using True by simp
    ultimately show ?thesis using True s
      by (subst iterate.simps) (simp add: funpow_swap1)
  next
    case False
    then show ?thesis by (subst iterate.simps) simp
  qed
qed

lemma iterate_Inr:
  "iterate d n c ps img = Inr img' \<Longrightarrow> img' = (spec_sweep c ps ^^ nat (n - d)) img"
proof (induction d n c ps img rule: iterate.induct)
  case (1 d n c order img)
  show ?case
  proof (cases "d < n")
    case True
    with "1.prems" obtain i1 where s: "sweep c order img = Inr i1"
      and r: "iterate (d + 1) n c order i1 = Inr img'"
      by (subst (asm) iterate.simps) (auto split: sum.splits)
    from sweep_Inr [OF s] have i1: "i1 = spec_sweep c order img" by simp
    from "1.IH" [OF True s r] have "img' = (spec_sweep c order ^^ nat (n - (d + 1))) i1" .
    moreover have "nat (n - d) = Suc (nat (n - (d + 1)))" using True by simp
    ultimately show ?thesis using i1 by (simp add: funpow_swap1)
  next
    case False
    with "1.prems" show ?thesis by (subst (asm) iterate.simps) simp
  qed
qed

lemma channels_Inr:
  "channels cs n ps img = Inr img' \<Longrightarrow>
     img' = fold (\<lambda>c. spec_sweep c ps ^^ nat n) cs img"
proof (induction cs arbitrary: img)
  case Nil
  then show ?case by simp
next
  case (Cons c cs)
  from Cons.prems obtain i1 where i: "iterate 0 n c ps img = Inr i1"
    and r: "channels cs n ps i1 = Inr img'"
    by (auto split: sum.splits)
  from iterate_Inr [OF i] Cons.IH [OF r] show ?case by simp
qed

lemma channels_total:
  "(\<forall>p\<in>set ps. has_neighbours img p) \<Longrightarrow>
     channels cs n ps img = Inr (fold (\<lambda>c. spec_sweep c ps ^^ nat n) cs img)"
proof (induction cs arbitrary: img)
  case Nil
  then show ?case by simp
next
  case (Cons c cs)
  have i: "iterate 0 n c ps img = Inr ((spec_sweep c ps ^^ nat n) img)"
    using iterate_total [OF Cons.prems, of 0 n c] by simp
  have "\<forall>p\<in>set ps. has_neighbours ((spec_sweep c ps ^^ nat n) img) p"
    using Cons.prems by (simp add: has_neighbours_def)
  from Cons.IH [OF this] show ?case using i by simp
qed


section \<open>The distance field and the order of convolution\<close>

text \<open>
  The distance field is 0 on valid pixels and at least 1 on the pixels of the hole; the
  order of convolution lists the pixels of distance 1 up to the maximum, level by level.
\<close>

lemma set_view_coords: "set (view_coords v) = {p. in_view v p}"
  by (auto simp: view_coords_def in_view_def)

lemma fold_min_ge: "(\<forall>x\<in>set xs. k \<le> x) \<Longrightarrow> k \<le> a \<Longrightarrow> k \<le> fold min xs (a::int)"
  by (induction xs arbitrary: a) simp_all

lemma grassfire_Inr:
  assumes "grassfire m = Inr D"
  shows "cols D = cols m \<and> rows D = rows m \<and>
         (pix m p = 0 \<longrightarrow> pix D p = 0) \<and> (pix m p \<noteq> 0 \<longrightarrow> 1 \<le> pix D p)"
proof -
  let ?valid = "filter (\<lambda>q. pix m q = 0) (view_coords m)"
  from assms have ne: "?valid \<noteq> []"
    and D: "D = \<lparr>cols = cols m, rows = rows m, planes = 1,
                pix = (\<lambda>p. if pix m p = 0 then 0
                            else fold min (map (\<lambda>q. \<bar>fst p - fst q\<bar> + \<bar>snd p - snd q\<bar>) ?valid)
                                   (cols m + rows m))\<rparr>"
    by (auto simp: grassfire_def Let_def split: if_splits)
  from ne obtain q where "q \<in> set ?valid" by (cases ?valid) auto
  then have "in_view m q" by (simp add: set_view_coords)
  then have pos: "1 \<le> cols m + rows m" by (simp add: in_view_def)
  have "1 \<le> fold min (map (\<lambda>q. \<bar>fst p - fst q\<bar> + \<bar>snd p - snd q\<bar>) ?valid) (cols m + rows m)"
    if "pix m p \<noteq> 0"
  proof (rule fold_min_ge [OF _ pos], rule ballI)
    fix x assume "x \<in> set (map (\<lambda>q. \<bar>fst p - fst q\<bar> + \<bar>snd p - snd q\<bar>) ?valid)"
    then obtain r where r: "pix m r = 0" and x: "x = \<bar>fst p - fst r\<bar> + \<bar>snd p - snd r\<bar>"
      by auto
    from r that have "p \<noteq> r" by auto
    then show "1 \<le> x" unfolding x by (auto simp: prod_eq_iff)
  qed
  then show ?thesis by (simp add: D)
qed

lemma grassfire_total:
  assumes "in_view m q" and "pix m q = 0"
  shows "\<exists>D. grassfire m = Inr D"
proof -
  from assms have "q \<in> set (filter (\<lambda>q. pix m q = 0) (view_coords m))"
    by (simp add: set_view_coords)
  then have "filter (\<lambda>q. pix m q = 0) (view_coords m) \<noteq> []"
    by (metis empty_iff empty_set)
  then show ?thesis by (simp add: grassfire_def Let_def)
qed

lemma fold_max_bounds:
  "a \<le> fold (\<lambda>q m. max m (f q)) ps (a::int) \<and>
   (\<forall>q\<in>set ps. f q \<le> fold (\<lambda>q m. max m (f q)) ps a) \<and>
   (fold (\<lambda>q m. max m (f q)) ps a = a \<or> fold (\<lambda>q m. max m (f q)) ps a \<in> f ` set ps)"
proof (induction ps arbitrary: a)
  case Nil
  then show ?case by simp
next
  case (Cons p ps)
  note ih = Cons.IH [of "max a (f p)"]
  show ?case
  proof (intro conjI ballI)
    show "a \<le> fold (\<lambda>q m. max m (f q)) (p # ps) a" using ih by simp
  next
    fix q assume "q \<in> set (p # ps)"
    then show "f q \<le> fold (\<lambda>q m. max m (f q)) (p # ps) a" using ih by auto
  next
    show "fold (\<lambda>q m. max m (f q)) (p # ps) a = a \<or>
          fold (\<lambda>q m. max m (f q)) (p # ps) a \<in> f ` set (p # ps)"
      using ih by (auto simp: max_def split: if_splits)
  qed
qed

lemma max_pixel_value_Inr:
  assumes "max_pixel_value D = Inr md"
  shows "(\<forall>q. in_view D q \<longrightarrow> pix D q \<le> md) \<and> (\<exists>q. in_view D q \<and> pix D q = md)"
proof -
  from assms obtain p ps where vc: "view_coords D = p # ps"
    and md: "md = fold (\<lambda>q m. max m (pix D q)) ps (pix D p)"
    by (auto simp: max_pixel_value_def split: list.splits)
  have s: "{q. in_view D q} = insert p (set ps)" using set_view_coords [of D] vc by simp
  note fb = fold_max_bounds [of "pix D p" "pix D" ps]
  have "\<forall>q. in_view D q \<longrightarrow> pix D q \<le> md"
  proof (intro allI impI)
    fix q assume "in_view D q"
    with s have "q = p \<or> q \<in> set ps" by auto
    then show "pix D q \<le> md" using fb md by auto
  qed
  moreover have "\<exists>q. in_view D q \<and> pix D q = md"
  proof -
    from fb md have "md = pix D p \<or> md \<in> pix D ` set ps" by simp
    then show ?thesis
    proof
      assume "md = pix D p"
      moreover have "in_view D p" using s by blast
      ultimately show ?thesis by blast
    next
      assume "md \<in> pix D ` set ps"
      then obtain q where "q \<in> set ps" and "md = pix D q" by blast
      moreover from this have "in_view D q" using s by blast
      ultimately show ?thesis by blast
    qed
  qed
  ultimately show ?thesis by simp
qed

lemma max_pixel_value_total:
  assumes "in_view D q"
  shows "\<exists>md. max_pixel_value D = Inr md"
proof -
  from assms have "q \<in> set (view_coords D)" by (simp add: set_view_coords)
  then show ?thesis by (cases "view_coords D") (auto simp: max_pixel_value_def)
qed

lemma set_processing_order:
  "set (processing_order D md w h) =
     {p. 0 \<le> fst p \<and> fst p < w \<and> 0 \<le> snd p \<and> snd p < h \<and> 1 \<le> pix D p \<and> pix D p \<le> md}"
  by (auto simp: processing_order_def split: if_splits)






section \<open>The two-pixel blob, evaluated\<close>









section \<open>The plus-shaped blob, evaluated\<close>













section \<open>The task in diffusion mode\<close>

text \<open>
  The shifted coordinates of a well-formed blob keep 10 pixels from every edge of the
  window, so the mask has valid pixels, the distance field is built, and every pixel of
  the order has its neighbours in the window.
\<close>

lemma shifted_margin:
  assumes "well_formed_blob b" and "p \<in> set (shift_blob (expand (bounding_box b) 10) (decompress b))"
  shows "10 \<le> fst p \<and> fst p + 10 \<le> width (expand (bounding_box b) 10) \<and>
         10 \<le> snd p \<and> snd p + 10 \<le> height (expand (bounding_box b) 10)"
proof -
  from assms(2) obtain q where q: "q \<in> set (decompress b)"
    and p: "p = (fst q - fst (bb_min (expand (bounding_box b) 10)),
                 snd q - snd (bb_min (expand (bounding_box b) 10)))"
    by (auto simp: shift_blob_def)
  from assms(1) q have "fst (bb_min (bounding_box b)) \<le> fst q \<and> fst q \<le> fst (bb_max (bounding_box b)) \<and>
      snd (bb_min (bounding_box b)) \<le> snd q \<and> snd q \<le> snd (bb_max (bounding_box b))"
    by (auto simp: well_formed_blob_def list_all_iff)
  then show ?thesis by (simp add: p expand_def width_def height_def)
qed

lemma window_size:
  assumes "well_formed_blob b"
  shows "20 \<le> width (expand (bounding_box b) 10) \<and> 20 \<le> height (expand (bounding_box b) 10)"
  using assms by (simp add: well_formed_blob_def ordered_box_def expand_def width_def height_def)

lemma diffuse_blob:
  assumes wf: "well_formed_blob b"
  shows "\<exists>mask_img D md.
           mark_blob (shift_blob (expand (bounding_box b) 10) (decompress b))
             (blank_mask (width (expand (bounding_box b) 10)) (height (expand (bounding_box b) 10)))
             = Inr mask_img \<and>
           grassfire mask_img = Inr D \<and> max_pixel_value D = Inr md \<and>
           (\<exists>q. in_view mask_img q \<and> pix mask_img q = 0) \<and>
           (\<forall>q. in_view D q \<longrightarrow> pix D q \<le> md) \<and> (\<exists>q. in_view D q \<and> pix D q = md) \<and>
           set (processing_order D md (width (expand (bounding_box b) 10))
                  (height (expand (bounding_box b) 10))) =
             set (shift_blob (expand (bounding_box b) 10) (decompress b)) \<and>
           (\<forall>p\<in>set (shift_blob (expand (bounding_box b) 10) (decompress b)).
              has_neighbours (crop view (expand (bounding_box b) 10)) p) \<and>
           diffuse n mask_img (width (expand (bounding_box b) 10))
               (height (expand (bounding_box b) 10)) (crop view (expand (bounding_box b) 10)) =
             Inr (spec_diffusion n
                    (processing_order D md (width (expand (bounding_box b) 10))
                       (height (expand (bounding_box b) 10)))
                    md (crop view (expand (bounding_box b) 10)))"
proof -
  let ?W = "expand (bounding_box b) 10"
  let ?w = "width ?W" and ?h = "height ?W"
  let ?blob = "shift_blob ?W (decompress b)"
  note size = window_size [OF wf]
  note margin = shifted_margin [OF wf]
  have "\<forall>p\<in>set ?blob. in_view (blank_mask ?w ?h) p"
    using margin by (fastforce simp: in_view_def blank_mask_def)
  from mark_blob_total [OF this] obtain mask_img where
    m: "mark_blob ?blob (blank_mask ?w ?h) = Inr mask_img" by blast
  from mark_blob_Inr [OF m] have mdims: "cols mask_img = ?w" "rows mask_img = ?h"
    by (simp_all add: blank_mask_def)
  note mpix = mask_of_blob [OF m]
  have origin: "in_view mask_img (0, 0)" using size mdims by (simp add: in_view_def)
  have "(0, 0) \<notin> set ?blob" using margin by fastforce
  then have zero: "pix mask_img (0, 0) = 0" by (simp add: mpix)
  from grassfire_total [OF origin zero] obtain D where D: "grassfire mask_img = Inr D" by blast
  note g = grassfire_Inr [OF D]
  from g have ddims: "cols D = ?w" "rows D = ?h" using mdims by simp_all
  then have "in_view D (0, 0)" using origin mdims by (simp add: in_view_def)
  from max_pixel_value_total [OF this] obtain md where md: "max_pixel_value D = Inr md" by blast
  note mx = max_pixel_value_Inr [OF md]
  let ?order = "processing_order D md ?w ?h"
  have order: "set ?order = set ?blob"
  proof (intro set_eqI iffI)
    fix p assume "p \<in> set ?order"
    then have "1 \<le> pix D p" by (simp add: set_processing_order)
    with g [of p] have "pix mask_img p \<noteq> 0" by auto
    then show "p \<in> set ?blob" by (simp add: mpix split: if_splits)
  next
    fix p assume p: "p \<in> set ?blob"
    then have "pix mask_img p \<noteq> 0" by (simp add: mpix)
    with g [of p] have one: "1 \<le> pix D p" by simp
    from margin [OF p] have inw: "0 \<le> fst p \<and> fst p < ?w \<and> 0 \<le> snd p \<and> snd p < ?h" by simp
    then have "in_view D p" using ddims by (simp add: in_view_def)
    with mx have "pix D p \<le> md" by blast
    with one inw show "p \<in> set ?order" by (simp add: set_processing_order)
  qed
  have nb: "\<forall>p\<in>set ?blob. has_neighbours (crop view ?W) p"
    using margin by (fastforce simp: has_neighbours_def crop_dims)
  then have "\<forall>p\<in>set ?order. has_neighbours (crop view ?W) p" by (simp add: order)
  from channels_total [OF this]
  have "diffuse n mask_img ?w ?h (crop view ?W) = Inr (spec_diffusion n ?order md (crop view ?W))"
    by (simp add: diffuse_def diffuse_from_def D md spec_diffusion_def)
  with m D md origin zero mx order nb show ?thesis by blast
qed

lemma spec_diffusion_dims:
  "cols (spec_diffusion n order md img) = cols img \<and> rows (spec_diffusion n order md img) = rows img"
proof -
  have "cols (fold (\<lambda>c. spec_sweep c order ^^ k) cs img) = cols img \<and>
        rows (fold (\<lambda>c. spec_sweep c order ^^ k) cs img) = rows img" for cs k
    by (induction cs arbitrary: img) simp_all
  then show ?thesis by (simp add: spec_diffusion_def)
qed

lemma InpaintTask_diffusion:
  assumes wf: "well_formed_blob b"
    and inb: "\<not> early_exit view (expand (bounding_box b) 10)"
  shows "\<exists>mask_img D md.
           mark_blob (shift_blob (expand (bounding_box b) 10) (decompress b))
             (blank_mask (width (expand (bounding_box b) 10)) (height (expand (bounding_box b) 10)))
             = Inr mask_img \<and>
           grassfire mask_img = Inr D \<and> max_pixel_value D = Inr md \<and>
           (\<exists>q. in_view mask_img q \<and> pix mask_img q = 0) \<and>
           (\<forall>q. in_view D q \<longrightarrow> pix D q \<le> md) \<and> (\<exists>q. in_view D q \<and> pix D q = md) \<and>
           set (processing_order D md (width (expand (bounding_box b) 10))
                  (height (expand (bounding_box b) 10))) =
             set (shift_blob (expand (bounding_box b) 10) (decompress b)) \<and>
           (\<forall>p\<in>set (shift_blob (expand (bounding_box b) 10) (decompress b)).
              has_neighbours (crop view (expand (bounding_box b) 10)) p) \<and>
           InpaintTask n view b True d patches =
             Inr (Finished,
                  absorb patches (bb_min (expand (bounding_box b) 10))
                    (copy_mask
                       (spec_diffusion n
                          (processing_order D md (width (expand (bounding_box b) 10))
                             (height (expand (bounding_box b) 10)))
                          md (crop view (expand (bounding_box b) 10)))
                       (create_mask mask_img 0)))"
proof -
  from diffuse_blob [OF wf, of view n] obtain mask_img D md where
    f: "mark_blob (shift_blob (expand (bounding_box b) 10) (decompress b))
             (blank_mask (width (expand (bounding_box b) 10)) (height (expand (bounding_box b) 10)))
             = Inr mask_img"
       "grassfire mask_img = Inr D" "max_pixel_value D = Inr md"
       "\<exists>q. in_view mask_img q \<and> pix mask_img q = 0"
       "\<forall>q. in_view D q \<longrightarrow> pix D q \<le> md" "\<exists>q. in_view D q \<and> pix D q = md"
       "set (processing_order D md (width (expand (bounding_box b) 10))
                  (height (expand (bounding_box b) 10))) =
             set (shift_blob (expand (bounding_box b) 10) (decompress b))"
       "\<forall>p\<in>set (shift_blob (expand (bounding_box b) 10) (decompress b)).
              has_neighbours (crop view (expand (bounding_box b) 10)) p"
    and df: "diffuse n mask_img (width (expand (bounding_box b) 10))
               (height (expand (bounding_box b) 10)) (crop view (expand (bounding_box b) 10)) =
             Inr (spec_diffusion n
                    (processing_order D md (width (expand (bounding_box b) 10))
                       (height (expand (bounding_box b) 10)))
                    md (crop view (expand (bounding_box b) 10)))"
    by blast
  have "InpaintTask n view b True d patches =
      Inr (Finished,
           absorb patches (bb_min (expand (bounding_box b) 10))
             (copy_mask
                (spec_diffusion n
                   (processing_order D md (width (expand (bounding_box b) 10))
                      (height (expand (bounding_box b) 10)))
                   md (crop view (expand (bounding_box b) 10)))
                (create_mask mask_img 0)))"
    using inb by (simp add: InpaintTask_def blob_window_def Let_def f(1) df)
  with f show ?thesis by blast
qed

section \<open>The loops in the arithmetic of the source\<close>



lemma rounded_update_dims [simp]:
  "cols (rounded_update rd c p img) = cols img" "rows (rounded_update rd c p img) = rows img"
  by (simp_all add: rounded_update_def)

lemma rounded_sweep_dims [simp]:
  "cols (fold (rounded_update rd c) ps img) = cols img"
  "rows (fold (rounded_update rd c) ps img) = rows img"
  by (induction ps arbitrary: img) simp_all

lemma rounded_funpow_dims [simp]:
  "cols ((fold (rounded_update rd c) ps ^^ k) img) = cols img"
  "rows ((fold (rounded_update rd c) ps ^^ k) img) = rows img"
  by (induction k) simp_all






text \<open>With conversions that round nothing the rounded loops are the exact ones.\<close>

lemma accumulate_exact: "accumulate_rounded no_rounding img c p ks acc = accumulate img c p ks acc"
  by (induction ks arbitrary: acc) (simp_all add: Let_def add_weighted_def no_rounding_def)

lemma convolve_exact: "convolve_rounded no_rounding c p img = convolve c p img"
proof -
  have "to_channel no_rounding = (\<lambda>x. x)" by (simp add: no_rounding_def)
  then show ?thesis
    by (cases "accumulate img c p kernel 0")
      (simp_all add: convolve_rounded_def convolve_def accumulate_exact)
qed

lemma sweep_exact: "sweep_rounded no_rounding c ps img = sweep c ps img"
  by (induction ps arbitrary: img) (simp_all add: convolve_exact split: sum.splits)

lemma iterate_exact: "iterate_rounded no_rounding d n c ps img = iterate d n c ps img"
proof (induction d n c ps img rule: iterate.induct)
  case (1 d n c order img)
  show ?case
  proof (cases "d < n")
    case True
    show ?thesis
    proof (cases "sweep c order img")
      case (Inl e)
      then show ?thesis using True
        by (subst iterate_rounded.simps, subst iterate.simps) (simp add: sweep_exact)
    next
      case (Inr img')
      from "1.IH" [OF True Inr] show ?thesis using True Inr
        by (subst iterate_rounded.simps, subst iterate.simps) (simp add: sweep_exact)
    qed
  next
    case False
    then show ?thesis by (subst iterate_rounded.simps, subst iterate.simps) simp
  qed
qed

lemma channels_exact: "channels_rounded no_rounding cs n ps img = channels cs n ps img"
  by (induction cs arbitrary: img) (simp_all add: iterate_exact split: sum.splits)

lemma diffuse_exact: "diffuse_rounded no_rounding n mask_img w h img = diffuse n mask_img w h img"
  by (simp add: diffuse_rounded_def diffuse_def diffuse_from_rounded_def diffuse_from_def
      channels_exact split: sum.splits)

lemma InpaintTask_exact:
  "InpaintTask_rounded no_rounding n view b g d patches = InpaintTask n view b g d patches"
proof (cases "mark_blob (shift_blob (blob_window b g) (decompress b))
    (blank_mask (width (blob_window b g)) (height (blob_window b g)))")
  case (Inl e)
  then show ?thesis by (simp add: InpaintTask_rounded_def InpaintTask_def Let_def)
next
  case (Inr mask_img)
  then show ?thesis
    by (cases g) (simp_all add: InpaintTask_rounded_def InpaintTask_def Let_def diffuse_exact)
qed

section \<open>The sign of the rounded values\<close>













section \<open>A constant window in binary floating point\<close>










section \<open>The task on the two-pixel blob\<close>


lemma two_pixel_expand: "expand (bounding_box two_pixel_blob) 10 = two_pixel_window"
  by (simp add: two_pixel_blob_def expand_def two_pixel_window_def)


lemma two_pixel_in_bounds_dark: "\<not> early_exit dark_image (expand (bounding_box two_pixel_blob) 10)"
  by (simp add: two_pixel_expand early_exit_def two_pixel_window_def dark_image_def)



section \<open>Well-formed catalogs construct an overlay\<close>

text \<open>A task on a well-formed blob returns, in either mode, and so does the constructor.\<close>

lemma InpaintTask_total:
  assumes wf: "well_formed_blob b"
  shows "\<exists>r. InpaintTask n view b g d patches = Inr r"
proof (cases "early_exit view (blob_window b g)")
  case True
  then show ?thesis by (simp add: InpaintTask_early)
next
  case False
  show ?thesis
  proof (cases g)
    case True
    with False have "\<not> early_exit view (expand (bounding_box b) 10)"
      by (simp add: blob_window_def)
    from InpaintTask_diffusion [OF wf this, of n d patches]
    obtain r where "InpaintTask n view b True d patches = Inr r" by blast
    then show ?thesis using True by auto
  next
    case g: False
    let ?W = "expand (bounding_box b) 1"
    let ?blob = "shift_blob ?W (decompress b)"
    have inw: "0 \<le> fst p \<and> fst p < width ?W \<and> 0 \<le> snd p \<and> snd p < height ?W"
      if "p \<in> set ?blob" for p
    proof -
      from that obtain q where q: "q \<in> set (decompress b)"
        and p: "p = (fst q - fst (bb_min ?W), snd q - snd (bb_min ?W))"
        by (auto simp: shift_blob_def)
      from wf q have "fst (bb_min (bounding_box b)) \<le> fst q \<and> fst q \<le> fst (bb_max (bounding_box b)) \<and>
          snd (bb_min (bounding_box b)) \<le> snd q \<and> snd q \<le> snd (bb_max (bounding_box b))"
        by (auto simp: well_formed_blob_def list_all_iff)
      then show ?thesis by (simp add: p expand_def width_def height_def)
    qed
    have "\<forall>p\<in>set ?blob. in_view (blank_mask (width ?W) (height ?W)) p"
      using inw by (simp add: in_view_def blank_mask_def)
    from mark_blob_total [OF this] obtain mask_img where
      m: "mark_blob ?blob (blank_mask (width ?W) (height ?W)) = Inr mask_img" by blast
    have "\<forall>p\<in>set ?blob. in_view (crop view ?W) p"
      using inw by (simp add: in_view_def crop_dims)
    from flat_fill_total [OF this] obtain filled where
      f: "flat_fill ?blob d (crop view ?W) = Inr filled" by blast
    show ?thesis using False g m f by (simp add: InpaintTask_def blob_window_def Let_def)
  qed
qed

lemma run_tasks_total:
  "\<forall>b\<in>set bs. well_formed_blob b \<Longrightarrow> \<exists>st. run_tasks n view bs g d patches = Inr st"
proof (induction bs arbitrary: patches)
  case Nil
  then show ?case by simp
next
  case (Cons b bs)
  from Cons.prems have "well_formed_blob b" by simp
  from InpaintTask_total [OF this] obtain r where
    "InpaintTask n view b g d patches = Inr r" by blast
  moreover from Cons.IH [of "snd r"] Cons.prems
  obtain st where "run_tasks n view bs g d (snd r) = Inr st" by auto
  ultimately show ?case by simp
qed

lemma InpaintView_total:
  "\<forall>b\<in>set bs. well_formed_blob b \<Longrightarrow> \<exists>v. InpaintView n view bs g d = Inr v"
  using run_tasks_total [of bs n view g d Map.empty] by (auto simp: InpaintView_def)

section \<open>The claims\<close>

text \<open>
  Claim C1. At every pixel coordinate of a constructed overlay, the pixel read returns
  the value the patch store holds there when the store contains the coordinate, and
  the value of the wrapped source image otherwise.
\<close>

theorem overlay_pixel_read:
  assumes "InpaintView n view bs g d = Inr v"
  shows "iv_pixel v x y = (case m_patches v (x, y) of Some a \<Rightarrow> a | None \<Rightarrow> pix view (x, y))"
  using InpaintView_Inr [OF assms] by (auto simp: iv_pixel_lookup split: option.splits)

text \<open>
  The 10 by 10 image with the blob at (5, 5): the read at (5, 5) comes from the store,
  the read at (4, 5) from the image.
\<close>

theorem overlay_pixel_read_witness:
  "InpaintView 3 example_image [example_blob] False zero_pixel = Inr example_overlay \<and>
   iv_pixel example_overlay 5 5 = zero_pixel \<and>
   iv_pixel example_overlay 4 5 = pix example_image (4, 5)"
proof -
  have h: "InpaintView 3 example_image [example_blob] False zero_pixel = Inr example_overlay"
    by (rule example_overlay_built)
  show ?thesis
    using h overlay_pixel_read [OF h, of 5 5] overlay_pixel_read [OF h, of 4 5]
    by (simp add: example_overlay_def example_store_def)
qed

text \<open>
  Claim C2, as amended. In flat mode, for every blob whose window, the box expanded by
  one pixel, lies inside the image and stops short of its last column and its last
  row, the overlay returns the default value at every coordinate of the blob; and at
  every coordinate that belongs to no such blob the overlay returns the value of the
  source image. The constructor completes on every catalog of well-formed blobs.
\<close>

theorem flat_replacement:
  "((\<forall>b\<in>set bs. well_formed_blob b) \<longrightarrow> (\<exists>v. InpaintView n view bs False d = Inr v)) \<and>
   (\<forall>v. InpaintView n view bs False d = Inr v \<longrightarrow>
      (\<forall>b\<in>set bs.
         window_inside view (expand (bounding_box b) 1) \<and>
         fst (bb_max (expand (bounding_box b) 1)) < cols view \<and>
         snd (bb_max (expand (bounding_box b) 1)) < rows view \<longrightarrow>
         (\<forall>q\<in>set (decompress b). iv_pixel v (fst q) (snd q) = d)) \<and>
      (\<forall>q. (\<forall>b\<in>set bs.
                window_inside view (expand (bounding_box b) 1) \<and>
                fst (bb_max (expand (bounding_box b) 1)) < cols view \<and>
                snd (bb_max (expand (bounding_box b) 1)) < rows view \<longrightarrow>
                q \<notin> set (decompress b)) \<longrightarrow>
           iv_pixel v (fst q) (snd q) = pix view q))"
proof (intro conjI allI impI ballI)
  assume "\<forall>b\<in>set bs. well_formed_blob b"
  then show "\<exists>v. InpaintView n view bs False d = Inr v" by (rule InpaintView_total)
next
  fix v b q
  assume v: "InpaintView n view bs False d = Inr v"
    and b: "b \<in> set bs"
    and inside: "window_inside view (expand (bounding_box b) 1) \<and>
         fst (bb_max (expand (bounding_box b) 1)) < cols view \<and>
         snd (bb_max (expand (bounding_box b) 1)) < rows view"
    and q: "q \<in> set (decompress b)"
  from InpaintView_Inr [OF v] have run: "run_tasks n view bs False d Map.empty = Inr (m_patches v)"
    by simp
  from inside have "\<not> early_exit view (blob_window b False)"
    by (simp add: blob_window_def processed_window)
  from run_tasks_flat_inside [OF run b this q] show "iv_pixel v (fst q) (snd q) = d"
    by (simp add: iv_pixel_lookup)
next
  fix v q
  assume v: "InpaintView n view bs False d = Inr v"
    and "\<forall>b\<in>set bs.
           window_inside view (expand (bounding_box b) 1) \<and>
           fst (bb_max (expand (bounding_box b) 1)) < cols view \<and>
           snd (bb_max (expand (bounding_box b) 1)) < rows view \<longrightarrow>
           q \<notin> set (decompress b)"
  then have "\<forall>b\<in>set bs. q \<notin> set (decompress b) \<or> early_exit view (blob_window b False)"
    using processed_window [of view] by (auto simp: blob_window_def)
  moreover from InpaintView_Inr [OF v]
  have c: "m_child v = view" and run: "run_tasks n view bs False d Map.empty = Inr (m_patches v)"
    by simp_all
  ultimately have "m_patches v q = None" using run_tasks_outside [OF run] by simp
  then show "iv_pixel v (fst q) (snd q) = pix view q"
    by (simp add: iv_pixel_lookup c)
qed

text \<open>
  The scenario of the specification: a 10 by 10 image, one defect at (5, 5), the
  default value 0.
\<close>

theorem flat_replacement_witness:
  "well_formed_blob example_blob \<and>
   InpaintView 3 example_image [example_blob] False zero_pixel = Inr example_overlay \<and>
   window_inside example_image (expand (bounding_box example_blob) 1) \<and>
   fst (bb_max (expand (bounding_box example_blob) 1)) < cols example_image \<and>
   snd (bb_max (expand (bounding_box example_blob) 1)) < rows example_image \<and>
   iv_pixel example_overlay 5 5 = zero_pixel \<and>
   iv_pixel example_overlay 6 5 = pix example_image (6, 5)"
proof -
  have w: "well_formed_blob example_blob"
    by (simp add: well_formed_blob_def ordered_box_def example_blob_def)
  have h: "InpaintView 3 example_image [example_blob] False zero_pixel = Inr example_overlay"
    by (rule example_overlay_built)
  have i: "window_inside example_image (expand (bounding_box example_blob) 1) \<and>
      fst (bb_max (expand (bounding_box example_blob) 1)) < cols example_image \<and>
      snd (bb_max (expand (bounding_box example_blob) 1)) < rows example_image"
    by (simp add: window_inside_def example_image_def example_blob_def expand_def)
  have o: "\<forall>b\<in>set [example_blob].
      window_inside example_image (expand (bounding_box b) 1) \<and>
      fst (bb_max (expand (bounding_box b) 1)) < cols example_image \<and>
      snd (bb_max (expand (bounding_box b) 1)) < rows example_image \<longrightarrow>
      (6, 5) \<notin> set (decompress b)"
    by (simp add: example_blob_def)
  note fr = flat_replacement [of "[example_blob]" 3 example_image zero_pixel,
      THEN conjunct2, rule_format, OF h]
  have m: "example_blob \<in> set [example_blob]" by simp
  have q: "(5, 5) \<in> set (decompress example_blob)" by (simp add: example_blob_def)
  from fr [THEN conjunct1, rule_format, OF m i q]
  have "iv_pixel example_overlay 5 5 = zero_pixel" by simp
  moreover from fr [THEN conjunct2, rule_format, of "(6, 5)"] o
  have "iv_pixel example_overlay 6 5 = pix example_image (6, 5)" by simp
  ultimately show ?thesis using w h i by simp
qed

text \<open>
  Claim C2 as the specification states it fails. The blob at (8, 8) of the 10 by 10
  image has the window of the pixels 7 to 9 in both directions, all of them pixels of
  the image, and its task takes the early exit of lines 84--85, since the maximum
  corner (10, 10) of the expanded box is not below the size of the image: the overlay
  reads the value 7 of the source at (8, 8), not the default value.
\<close>

theorem flat_window_inside_unpatched:
  "well_formed_blob corner_blob \<and>
   window_inside example_image (expand (bounding_box corner_blob) 1) \<and>
   (8, 8) \<in> set (decompress corner_blob) \<and>
   InpaintView 3 example_image [corner_blob] False zero_pixel = Inr unpatched_overlay \<and>
   iv_pixel unpatched_overlay 8 8 = pix example_image (8, 8) \<and>
   iv_pixel unpatched_overlay 8 8 \<noteq> zero_pixel"
proof -
  have "iv_pixel unpatched_overlay 8 8 = pix example_image (8, 8)"
    by (simp add: iv_pixel_lookup unpatched_overlay_def)
  moreover from this have "iv_pixel unpatched_overlay 8 8 \<noteq> zero_pixel"
    by (simp add: example_image_not_zero)
  moreover have "well_formed_blob corner_blob"
    by (simp add: well_formed_blob_def ordered_box_def corner_blob_def)
  moreover have "window_inside example_image (expand (bounding_box corner_blob) 1)"
    by (simp add: window_inside_def example_image_def corner_blob_def expand_def)
  moreover have "(8, 8) \<in> set (decompress corner_blob)" by (simp add: corner_blob_def)
  ultimately show ?thesis using corner_overlay_built [of 3] by blast
qed






text \<open>
  Claim C5, as amended. A task logs an early exit exactly when the window of its blob,
  the box expanded by 1 pixel in flat mode and by 10 pixels in diffusion mode, leaves
  the image or reaches its last column or its last row; it then returns the store as
  it was, with no error. The overlay returns the value of the source image at every
  coordinate of a blob so skipped that no processed blob of the catalog holds.
\<close>

theorem skip_out_of_bounds:
  "((\<exists>st. InpaintTask n view b g d patches = Inr (EarlyExit, st)) \<longleftrightarrow>
      (\<not> window_inside view (expand (bounding_box b) (if g then 10 else 1)) \<or>
       fst (bb_max (expand (bounding_box b) (if g then 10 else 1))) = cols view \<or>
       snd (bb_max (expand (bounding_box b) (if g then 10 else 1))) = rows view)) \<and>
   ((\<exists>st. InpaintTask n view b g d patches = Inr (EarlyExit, st)) \<longrightarrow>
      InpaintTask n view b g d patches = Inr (EarlyExit, patches)) \<and>
   (\<forall>bs v q.
      InpaintView n view bs g d = Inr v \<and> b \<in> set bs \<and>
      (\<exists>st. InpaintTask n view b g d patches = Inr (EarlyExit, st)) \<and>
      q \<in> set (decompress b) \<and>
      (\<forall>b'\<in>set bs. q \<in> set (decompress b') \<longrightarrow>
         (\<not> window_inside view (expand (bounding_box b') (if g then 10 else 1)) \<or>
          fst (bb_max (expand (bounding_box b') (if g then 10 else 1))) = cols view \<or>
          snd (bb_max (expand (bounding_box b') (if g then 10 else 1))) = rows view)) \<longrightarrow>
      iv_pixel v (fst q) (snd q) = pix view q)"
proof -
  have w: "blob_window c g = expand (bounding_box c) (if g then 10 else 1)" for c
    by (simp add: blob_window_def)
  have skip: "(\<exists>st. InpaintTask n view b g d patches = Inr (EarlyExit, st)) \<longleftrightarrow>
      early_exit view (blob_window b g)"
  proof
    assume "\<exists>st. InpaintTask n view b g d patches = Inr (EarlyExit, st)"
    then obtain st where t: "InpaintTask n view b g d patches = Inr (EarlyExit, st)" by blast
    show "early_exit view (blob_window b g)"
    proof (rule ccontr)
      assume "\<not> early_exit view (blob_window b g)"
      from InpaintTask_run [OF this t] show False by auto
    qed
  next
    assume "early_exit view (blob_window b g)"
    then show "\<exists>st. InpaintTask n view b g d patches = Inr (EarlyExit, st)"
      by (simp add: InpaintTask_early)
  qed
  have unpatched: "iv_pixel v (fst q) (snd q) = pix view q"
    if v: "InpaintView n view bs g d = Inr v"
      and others: "\<forall>b'\<in>set bs. q \<in> set (decompress b') \<longrightarrow> early_exit view (blob_window b' g)"
    for bs v q
  proof -
    note iv = InpaintView_Inr [OF v]
    from iv have run: "run_tasks n view bs g d Map.empty = Inr (m_patches v)" by simp
    from others
    have "\<forall>b'\<in>set bs. q \<notin> set (decompress b') \<or> early_exit view (blob_window b' g)"
      by blast
    from run_tasks_outside [OF run this] iv show ?thesis by (simp add: iv_pixel_lookup)
  qed
  show ?thesis
  proof (intro conjI allI impI)
    show "(\<exists>st. InpaintTask n view b g d patches = Inr (EarlyExit, st)) \<longleftrightarrow>
      (\<not> window_inside view (expand (bounding_box b) (if g then 10 else 1)) \<or>
       fst (bb_max (expand (bounding_box b) (if g then 10 else 1))) = cols view \<or>
       snd (bb_max (expand (bounding_box b) (if g then 10 else 1))) = rows view)"
      unfolding skip w by (rule early_exit_window)
  next
    assume "\<exists>st. InpaintTask n view b g d patches = Inr (EarlyExit, st)"
    with skip show "InpaintTask n view b g d patches = Inr (EarlyExit, patches)"
      by (simp add: InpaintTask_early)
  next
    fix bs v q
    assume a: "InpaintView n view bs g d = Inr v \<and> b \<in> set bs \<and>
      (\<exists>st. InpaintTask n view b g d patches = Inr (EarlyExit, st)) \<and>
      q \<in> set (decompress b) \<and>
      (\<forall>b'\<in>set bs. q \<in> set (decompress b') \<longrightarrow>
         (\<not> window_inside view (expand (bounding_box b') (if g then 10 else 1)) \<or>
          fst (bb_max (expand (bounding_box b') (if g then 10 else 1))) = cols view \<or>
          snd (bb_max (expand (bounding_box b') (if g then 10 else 1))) = rows view))"
    then have "\<forall>b'\<in>set bs. q \<in> set (decompress b') \<longrightarrow> early_exit view (blob_window b' g)"
      unfolding w early_exit_window by blast
    with a show "iv_pixel v (fst q) (snd q) = pix view q" by (intro unpatched) blast+
  qed
qed

text \<open>
  The blob at (0, 5), on the left edge of the 10 by 10 image, in a catalog with the blob
  at (5, 5).
\<close>

theorem skip_out_of_bounds_witness:
  "\<not> window_inside example_image (expand (bounding_box edge_blob) 1) \<and>
   InpaintTask 3 example_image edge_blob False zero_pixel Map.empty = Inr (EarlyExit, Map.empty) \<and>
   InpaintView 3 example_image [edge_blob, example_blob] False zero_pixel = Inr example_overlay \<and>
   iv_pixel example_overlay 0 5 = pix example_image (0, 5)"
proof -
  note th = skip_out_of_bounds [of 3 example_image edge_blob False zero_pixel Map.empty]
  have f: "\<not> window_inside example_image (expand (bounding_box edge_blob) 1)"
    by (simp add: window_inside_def example_image_def edge_blob_def expand_def)
  with th have e: "\<exists>st. InpaintTask 3 example_image edge_blob False zero_pixel Map.empty =
      Inr (EarlyExit, st)"
    by simp
  with th have t: "InpaintTask 3 example_image edge_blob False zero_pixel Map.empty =
      Inr (EarlyExit, Map.empty)"
    by blast
  have h: "InpaintView 3 example_image [edge_blob, example_blob] False zero_pixel =
      Inr example_overlay"
    by (rule edge_overlay_built)
  have q: "(0, 5) \<in> set (decompress edge_blob)" by (simp add: edge_blob_def)
  have o: "\<forall>b'\<in>set [edge_blob, example_blob]. (0, 5) \<in> set (decompress b') \<longrightarrow>
         (\<not> window_inside example_image (expand (bounding_box b') (if False then 10 else 1)) \<or>
          fst (bb_max (expand (bounding_box b') (if False then 10 else 1))) = cols example_image \<or>
          snd (bb_max (expand (bounding_box b') (if False then 10 else 1))) = rows example_image)"
    using f by (simp add: example_blob_def)
  have m: "edge_blob \<in> set [edge_blob, example_blob]" by simp
  note ov = th [THEN conjunct2, THEN conjunct2, rule_format,
      of "[edge_blob, example_blob]" example_overlay "(0, 5)"]
  have "iv_pixel example_overlay (fst (0::int, 5::int)) (snd (0::int, 5::int)) =
      pix example_image (0, 5)"
    by (rule ov) (intro conjI h m e q o)
  then show ?thesis using f t h by simp
qed

text \<open>
  Claim C5 as the specification states it fails, in both halves. The task of the blob
  at (8, 8) takes the early exit although its window, the pixels 7 to 9, lies inside
  the 10 by 10 image. And the blob from (0, 5) to (5, 5) is skipped, its window
  starting left of the image, yet the overlay does not return the source at its
  coordinate (5, 5), which the processed blob at (5, 5) holds too.
\<close>

theorem skipped_window_inside:
  "window_inside example_image (expand (bounding_box corner_blob) 1) \<and>
   InpaintTask 3 example_image corner_blob False zero_pixel Map.empty = Inr (EarlyExit, Map.empty) \<and>
   \<not> window_inside example_image (expand (bounding_box wide_blob) 1) \<and>
   InpaintTask 3 example_image wide_blob False zero_pixel Map.empty = Inr (EarlyExit, Map.empty) \<and>
   (5, 5) \<in> set (decompress wide_blob) \<and>
   InpaintView 3 example_image [wide_blob, example_blob] False zero_pixel = Inr example_overlay \<and>
   iv_pixel example_overlay 5 5 = zero_pixel \<and>
   iv_pixel example_overlay 5 5 \<noteq> pix example_image (5, 5)"
proof -
  have "window_inside example_image (expand (bounding_box corner_blob) 1)"
    by (simp add: window_inside_def example_image_def corner_blob_def expand_def)
  moreover have "\<not> window_inside example_image (expand (bounding_box wide_blob) 1)"
    by (simp add: window_inside_def example_image_def wide_blob_def expand_def)
  moreover have "(5, 5) \<in> set (decompress wide_blob)" by (simp add: wide_blob_def)
  moreover have z: "iv_pixel example_overlay 5 5 = zero_pixel"
    by (simp add: iv_pixel_lookup example_overlay_def example_store_def)
  moreover have "iv_pixel example_overlay 5 5 \<noteq> pix example_image (5, 5)"
    using example_image_not_zero [of "(5, 5)"] by (simp add: z)
  ultimately show ?thesis
    using corner_task [of 3] wide_task [of 3] wide_overlay_built [of 3] by blast
qed

text \<open>
  Claim C7. In both modes a task changes the patch store at coordinates of its blob
  only: a coordinate outside the blob, in the expanded window or not, keeps what the
  store held before.
\<close>

theorem task_writes_only_blob:
  assumes "InpaintTask n view b g d patches = Inr (out, patches')"
    and "q \<notin> set (decompress b)"
  shows "patches' q = patches q"
  using InpaintTask_outside [OF assms(1), of q] assms(2) by simp

text \<open>The blob at (5, 5): its neighbour (4, 5), inside the window, is not stored.\<close>

theorem task_writes_only_blob_witness:
  "InpaintTask 3 example_image example_blob False zero_pixel Map.empty =
     Inr (Finished, example_store) \<and>
   (4, 5) \<notin> set (decompress example_blob) \<and> example_store (4, 5) = None \<and>
   example_store (5, 5) = Some zero_pixel"
proof -
  have h: "InpaintTask 3 example_image example_blob False zero_pixel Map.empty =
      Inr (Finished, example_store)"
    by (rule example_task)
  have q: "(4, 5) \<notin> set (decompress example_blob)" by (simp add: example_blob_def)
  show ?thesis using h q task_writes_only_blob [OF h q] by (simp add: example_store_def)
qed




text \<open>
  Claim C9. Given a prerasterization of the child that agrees with the child on a
  sub-region, the prerasterized overlay agrees with the overlay on every coordinate of
  the sub-region, and it holds the patch store of the overlay: no task runs again.
\<close>

theorem prerasterize_agrees:
  assumes "\<forall>q. in_region r q \<longrightarrow> pix (child_prerasterize (m_child v) r) q = pix (m_child v) q"
    and "in_region r (x, y)"
  shows "iv_pixel (prerasterize child_prerasterize v r) x y = iv_pixel v x y \<and>
         m_patches (prerasterize child_prerasterize v r) = m_patches v"
  using assms by (auto simp: iv_pixel_lookup prerasterize_def InpaintView_copy_def split: option.splits)

text \<open>The region from (4, 4) to (8, 8) of the overlay with the blob at (5, 5).\<close>

theorem prerasterize_agrees_witness:
  "in_region example_region (5, 5) \<and> in_region example_region (6, 7) \<and>
   iv_pixel (prerasterize example_prerasterize example_overlay example_region) 5 5 = zero_pixel \<and>
   iv_pixel (prerasterize example_prerasterize example_overlay example_region) 6 7 =
     pix example_image (6, 7) \<and>
   m_patches (prerasterize example_prerasterize example_overlay example_region) = example_store"
proof -
  have c: "\<forall>q. in_region example_region q \<longrightarrow>
      pix (example_prerasterize (m_child example_overlay) example_region) q =
      pix (m_child example_overlay) q"
    by (simp add: example_prerasterize_def)
  have a: "in_region example_region (5, 5)" and b: "in_region example_region (6, 7)"
    by (simp_all add: in_region_def example_region_def)
  note pa = prerasterize_agrees [where child_prerasterize = example_prerasterize
      and v = example_overlay and r = example_region, OF c]
  show ?thesis
    using a b pa [OF a] pa [OF b]
    by (simp add: iv_pixel_lookup example_overlay_def example_store_def)
qed

text \<open>
  Claim C10. A constructed overlay has the columns and rows of the wrapped source
  image, and one plane, whatever the number of planes of the source.
\<close>

theorem overlay_extent:
  assumes "InpaintView n view bs g d = Inr v"
  shows "iv_cols v = cols view \<and> iv_rows v = rows view \<and> iv_planes v = 1"
  using InpaintView_Inr [OF assms] by (simp add: iv_cols_def iv_rows_def iv_planes_def)

text \<open>The source has 3 planes, the overlay 1.\<close>

theorem overlay_extent_witness:
  "InpaintView 3 example_image [example_blob] False zero_pixel = Inr example_overlay \<and>
   planes example_image = 3 \<and>
   iv_cols example_overlay = 10 \<and> iv_rows example_overlay = 10 \<and> iv_planes example_overlay = 1"
proof -
  have h: "InpaintView 3 example_image [example_blob] False zero_pixel = Inr example_overlay"
    by (rule example_overlay_built)
  show ?thesis using h overlay_extent [OF h] by (simp add: example_image_def)
qed

end
